theory Spec2Isabelle
  imports Main "HOL-Library.AList" "HOL-Library.Sublist"
begin

section \<open>Untyped records\<close>

text \<open>
  The records of the store are \<^verbatim>\<open>unstructured.Unstructured\<close> values: a Go
  \<^verbatim>\<open>map[string]interface{}\<close> holding decoded JSON. A Go map is an association list
  here, read with \<^const>\<open>map_of\<close> and written with \<^const>\<open>AList.update\<close>, which
  replaces the entry of an existing key in place and appends a new key.
\<close>

datatype jval =
    JNull
  | JBool bool
  | JNum int
  | JStr string
  | JList "jval list"
  | JMap "(string \<times> jval) list"

type_synonym object = "(string \<times> jval) list"

datatype err =
    Conflict string
  | NotFound string
  | ApiError string
  | FieldError "string list"
  | GitError string

text \<open>\<^verbatim>\<open>errors.IsConflict\<close>: the status reason of the error is Conflict (HTTP 409).\<close>

fun IsConflict :: "err \<Rightarrow> bool" where
  "IsConflict (Conflict _) = True"
| "IsConflict _ = False"

text \<open>
  \<^verbatim>\<open>unstructured.SetNestedField(obj, value, fields...)\<close> walks the maps named by all
  fields but the last, creating an empty map where a field is absent and failing where
  a field holds anything that is not a map, and then assigns the last field. The error
  names the path walked so far. An error can only arise before the first map is
  created (a created map is empty), so a failing call has not written to \<open>obj\<close>.
  With no field at all the Go code slices \<^verbatim>\<open>fields[:len(fields)-1]\<close> out of range and
  panics; the callers of this program always pass three fields.
\<close>

fun setNestedFieldNoCopy :: "object \<Rightarrow> jval \<Rightarrow> string list \<Rightarrow> err + object" where
  "setNestedFieldNoCopy m v [] = Inl (FieldError [])"
| "setNestedFieldNoCopy m v [field] = Inr (AList.update field v m)"
| "setNestedFieldNoCopy m v (field # fields) =
     (case map_of m field of
        Some (JMap valMap) \<Rightarrow>
          (case setNestedFieldNoCopy valMap v fields of
             Inl (FieldError p) \<Rightarrow> Inl (FieldError (field # p))
           | Inl e \<Rightarrow> Inl e
           | Inr valMap' \<Rightarrow> Inr (AList.update field (JMap valMap') m))
      | Some _ \<Rightarrow> Inl (FieldError [field])
      | None \<Rightarrow>
          (case setNestedFieldNoCopy [] v fields of
             Inl (FieldError p) \<Rightarrow> Inl (FieldError (field # p))
           | Inl e \<Rightarrow> Inl e
           | Inr newVal \<Rightarrow> Inr (AList.update field (JMap newVal) m)))"

definition SetNestedField :: "object \<Rightarrow> jval \<Rightarrow> string list \<Rightarrow> err + object" where
  "SetNestedField obj v fields = setNestedFieldNoCopy obj v fields"

text \<open>
  \<^verbatim>\<open>unstructured.NestedFieldNoCopy\<close>: the value at a path, \<open>None\<close> when a field on
  the way is absent or the path runs through a value that is not a map.
\<close>

fun NestedFieldNoCopy :: "object \<Rightarrow> string list \<Rightarrow> jval option" where
  "NestedFieldNoCopy obj [] = Some (JMap obj)"
| "NestedFieldNoCopy obj [field] = map_of obj field"
| "NestedFieldNoCopy obj (field # fields) =
     (case map_of obj field of
        Some (JMap m) \<Rightarrow> NestedFieldNoCopy m fields
      | _ \<Rightarrow> None)"

text \<open>
  \<^verbatim>\<open>getNestedString\<close>, behind \<^verbatim>\<open>GetName\<close> and \<^verbatim>\<open>GetNamespace\<close>: the string at
  the path, and the empty string when it is absent or not a string.
\<close>

definition getNestedString :: "object \<Rightarrow> string list \<Rightarrow> string" where
  "getNestedString obj fields =
     (case NestedFieldNoCopy obj fields of Some (JStr s) \<Rightarrow> s | _ \<Rightarrow> [])"

definition GetName :: "object \<Rightarrow> string" where
  "GetName obj = getNestedString obj [''metadata'', ''name'']"

definition GetNamespace :: "object \<Rightarrow> string" where
  "GetNamespace obj = getNestedString obj [''metadata'', ''namespace'']"

section \<open>Wall-clock time\<close>

text \<open>
  \<^verbatim>\<open>time.Now().Format(time.RFC1123)\<close> renders the layout
  \<^verbatim>\<open>Mon, 02 Jan 2006 15:04:05 MST\<close>: abbreviated weekday, day of the month on two
  digits, abbreviated month, year on four digits, the time of day on two digits each,
  and the abbreviation of the zone. \<open>Time\<close> holds the calendar reading of the
  instant; \<open>Zone\<close> is the text that the layout element \<^verbatim>\<open>MST\<close> prints.
\<close>

datatype weekday = Sunday | Monday | Tuesday | Wednesday | Thursday | Friday | Saturday

datatype month = January | February | March | April | May | June | July | August
  | September | October | November | December

record Time =
  Year :: nat
  Month :: month
  Day :: nat
  Hour :: nat
  Minute :: nat
  Second :: nat
  Weekday :: weekday
  Zone :: string

fun shortDayName :: "weekday \<Rightarrow> string" where
  "shortDayName Sunday = ''Sun''"
| "shortDayName Monday = ''Mon''"
| "shortDayName Tuesday = ''Tue''"
| "shortDayName Wednesday = ''Wed''"
| "shortDayName Thursday = ''Thu''"
| "shortDayName Friday = ''Fri''"
| "shortDayName Saturday = ''Sat''"

fun shortMonthName :: "month \<Rightarrow> string" where
  "shortMonthName January = ''Jan''"
| "shortMonthName February = ''Feb''"
| "shortMonthName March = ''Mar''"
| "shortMonthName April = ''Apr''"
| "shortMonthName May = ''May''"
| "shortMonthName June = ''Jun''"
| "shortMonthName July = ''Jul''"
| "shortMonthName August = ''Aug''"
| "shortMonthName September = ''Sep''"
| "shortMonthName October = ''Oct''"
| "shortMonthName November = ''Nov''"
| "shortMonthName December = ''Dec''"

definition digit :: "nat \<Rightarrow> char" where
  "digit d = ''0123456789'' ! (d mod 10)"

function decimal :: "nat \<Rightarrow> string" where
  "decimal n = (if n < 10 then [digit n] else decimal (n div 10) @ [digit n])"
  by pat_completeness auto
termination
  by (relation "measure (\<lambda>n. n)") auto

text \<open>\<^verbatim>\<open>appendInt(b, x, width)\<close> for \<open>x \<ge> 0\<close>: decimal, zero-padded on the left.\<close>

definition appendInt :: "nat \<Rightarrow> nat \<Rightarrow> string" where
  "appendInt x width = replicate (width - length (decimal x)) CHR ''0'' @ decimal x"

definition Format_RFC1123 :: "Time \<Rightarrow> string" where
  "Format_RFC1123 t =
     shortDayName (Weekday t) @ '', '' @ appendInt (Day t) 2 @ '' '' @
     shortMonthName (Month t) @ '' '' @ appendInt (Year t) 4 @ '' '' @
     appendInt (Hour t) 2 @ '':'' @ appendInt (Minute t) 2 @ '':'' @
     appendInt (Second t) 2 @ '' '' @ Zone t"

section \<open>The process and its surroundings\<close>

text \<open>
  Everything outside the program is one \<open>world\<close> value, threaded through every
  call.

  The store is the list of the records of the one resource type the program uses. A
  record is known by the namespace and name in its own metadata. On every request the
  other clients of the store act first: \<open>env w n\<close> gives, for the \<open>n\<close>-th
  request of this process, what they do to the store and, when the request is to fail
  without reaching the records (network, authorisation, a conflict reported by a test
  double), the error. An update is accepted only when the \<^verbatim>\<open>metadata.resourceVersion\<close>
  of the submitted record is that of the stored one; the store then gives the record
  a new version.

  The git remotes are an oracle from location and credentials to what a clone and the
  lookup of its head yield. \<open>wg\<close> is the counter of the one \<^verbatim>\<open>sync.WaitGroup\<close>.
  \<open>log\<close> keeps, in order, the requests made and their outcome, the pauses, the clock
  reads, the goroutines started and the records written by \<^verbatim>\<open>slog\<close>.
\<close>

datatype 'a result = Panic string | Return 'a

datatype level = LevelInfo | LevelWarn | LevelError

datatype logval = LStr string | LErr err | LAny "jval option"

datatype event =
    EvList string
  | EvGet string string "err + object"
  | EvUpdate string object "err option"
  | EvClone string
  | EvNow
  | EvSleep
  | EvGo string string
  | EvDump
  | EvCancel
  | EvLog level string "(string \<times> logval) list"

datatype Repository_git = Repository_git (Head: "err + string")

type_synonym store = "object list"

record world =
  objects :: store
  revision :: nat
  env :: "nat \<Rightarrow> (store \<Rightarrow> store) \<times> err option"
  calls :: nat
  remote :: "string \<Rightarrow> string \<Rightarrow> string \<Rightarrow> err + Repository_git"
  wallclock :: Time
  wg :: int
  log :: "event list"

definition emit :: "event \<Rightarrow> world \<Rightarrow> world" where
  "emit e w = w\<lparr>log := log w @ [e]\<rparr>"

definition slog_Info :: "string \<Rightarrow> (string \<times> logval) list \<Rightarrow> world \<Rightarrow> world" where
  "slog_Info msg args w = emit (EvLog LevelInfo msg args) w"

definition slog_Warn :: "string \<Rightarrow> (string \<times> logval) list \<Rightarrow> world \<Rightarrow> world" where
  "slog_Warn msg args w = emit (EvLog LevelWarn msg args) w"

definition slog_Error :: "string \<Rightarrow> (string \<times> logval) list \<Rightarrow> world \<Rightarrow> world" where
  "slog_Error msg args w = emit (EvLog LevelError msg args) w"

definition spew_Dump :: "world \<Rightarrow> world" where
  "spew_Dump w = emit EvDump w"

definition time_Now :: "world \<Rightarrow> Time \<times> world" where
  "time_Now w = (wallclock w, emit EvNow w)"

definition time_Sleep :: "world \<Rightarrow> world" where
  "time_Sleep w = emit EvSleep w"

subsection \<open>The wait group\<close>

text \<open>
  \<^verbatim>\<open>Add\<close> and \<^verbatim>\<open>Done\<close> move the counter and panic when it would become negative.
  \<^verbatim>\<open>Wait\<close> returns when the counter is zero. \<open>wg_Wait\<close> is asked once no goroutine
  is left to run, so a counter above zero stays there and the call never returns:
  the value \<open>None\<close>.
\<close>

definition wg_Add :: "int \<Rightarrow> world \<Rightarrow> world result" where
  "wg_Add delta w =
     (if wg w + delta < 0 then Panic ''sync: negative WaitGroup counter''
      else Return (w\<lparr>wg := wg w + delta\<rparr>))"

definition wg_Done :: "world \<Rightarrow> world result" where
  "wg_Done w = wg_Add (- 1) w"

definition wg_Wait :: "world \<Rightarrow> world option" where
  "wg_Wait w = (if wg w = 0 then Some w else None)"

subsection \<open>The store\<close>

definition hasKey :: "string \<Rightarrow> string \<Rightarrow> object \<Rightarrow> bool" where
  "hasKey ns name obj \<longleftrightarrow> GetNamespace obj = ns \<and> GetName obj = name"

fun replaceFirst :: "(object \<Rightarrow> bool) \<Rightarrow> object \<Rightarrow> store \<Rightarrow> store" where
  "replaceFirst P new [] = []"
| "replaceFirst P new (obj # objs) =
     (if P obj then new # objs else obj # replaceFirst P new objs)"

definition request :: "world \<Rightarrow> err option \<times> world" where
  "request w =
     (case env w (calls w) of
        (others, fault) \<Rightarrow> (fault, w\<lparr>objects := others (objects w), calls := calls w + 1\<rparr>))"

definition k8s_List :: "string \<Rightarrow> world \<Rightarrow> (err + object list) \<times> world" where
  "k8s_List ns w =
     (case request w of
        (Some e, w1) \<Rightarrow> (Inl e, emit (EvList ns) w1)
      | (None, w1) \<Rightarrow>
          (Inr (filter (\<lambda>obj. GetNamespace obj = ns) (objects w1)), emit (EvList ns) w1))"

definition k8s_Get :: "string \<Rightarrow> string \<Rightarrow> world \<Rightarrow> (err + object) \<times> world" where
  "k8s_Get ns name w =
     (if name = [] then
        (Inl (ApiError ''name is required''),
         emit (EvGet ns name (Inl (ApiError ''name is required''))) w)
      else
        (case request w of
           (Some e, w1) \<Rightarrow> (Inl e, emit (EvGet ns name (Inl e)) w1)
         | (None, w1) \<Rightarrow>
             (case find (hasKey ns name) (objects w1) of
                None \<Rightarrow> (Inl (NotFound name), emit (EvGet ns name (Inl (NotFound name))) w1)
              | Some obj \<Rightarrow> (Inr obj, emit (EvGet ns name (Inr obj)) w1))))"

definition resourceVersion :: "object \<Rightarrow> jval option" where
  "resourceVersion obj = NestedFieldNoCopy obj [''metadata'', ''resourceVersion'']"

definition k8s_Update :: "string \<Rightarrow> object \<Rightarrow> world \<Rightarrow> (err + object) \<times> world" where
  "k8s_Update ns obj w =
     (if GetName obj = [] then
        (Inl (ApiError ''name is required''),
         emit (EvUpdate ns obj (Some (ApiError ''name is required''))) w)
      else
        (case request w of
           (Some e, w1) \<Rightarrow> (Inl e, emit (EvUpdate ns obj (Some e)) w1)
         | (None, w1) \<Rightarrow>
             (case find (hasKey ns (GetName obj)) (objects w1) of
                None \<Rightarrow>
                  (Inl (NotFound (GetName obj)),
                   emit (EvUpdate ns obj (Some (NotFound (GetName obj)))) w1)
              | Some cur \<Rightarrow>
                  if GetNamespace obj \<noteq> ns then
                    (Inl (ApiError ''namespace does not match the request''),
                     emit (EvUpdate ns obj
                       (Some (ApiError ''namespace does not match the request''))) w1)
                  else if resourceVersion obj \<noteq> resourceVersion cur then
                    (Inl (Conflict (GetName obj)),
                     emit (EvUpdate ns obj (Some (Conflict (GetName obj)))) w1)
                  else
                    (case SetNestedField obj (JStr (decimal (Suc (revision w1))))
                            [''metadata'', ''resourceVersion''] of
                       Inl e \<Rightarrow> (Inl e, emit (EvUpdate ns obj (Some e)) w1)
                     | Inr stored \<Rightarrow>
                         (Inr stored,
                          emit (EvUpdate ns obj None)
                            (w1\<lparr>objects :=
                                   replaceFirst (hasKey ns (GetName obj)) stored (objects w1),
                                 revision := Suc (revision w1)\<rparr>))))))"

subsection \<open>The git remote\<close>

definition git_Clone :: "string \<Rightarrow> string \<Rightarrow> string \<Rightarrow> world \<Rightarrow> (err + Repository_git) \<times> world" where
  "git_Clone url username password w = (remote w url username password, emit (EvClone url) w)"

subsection \<open>Retry on conflict\<close>

text \<open>
  \<^verbatim>\<open>wait.ExponentialBackoff\<close> runs the condition up to \<^verbatim>\<open>Steps\<close> times and sleeps
  between two runs; it ends at once when the condition reports success or an error and
  with \<^verbatim>\<open>ErrWaitTimeout\<close> when the steps are used up. \<^verbatim>\<open>ErrWaitTimeout\<close> is a
  sentinel of that package; no request to the store or to git returns it.
  \<^verbatim>\<open>retry.OnError\<close> keeps the last retriable error in a variable shared with the
  condition, here the first component of the state, and returns it on a timeout.
  \<^verbatim>\<open>retry.DefaultRetry\<close> has five steps (10ms, factor 1.0, jitter 0.1; only the
  number of steps matters here).
\<close>

datatype backoff_err = ErrWaitTimeout | ConditionErr err

fun ExponentialBackoff ::
  "nat \<Rightarrow> ('s \<Rightarrow> 's) \<Rightarrow> ('s \<Rightarrow> (bool \<times> err option) \<times> 's) \<Rightarrow> 's \<Rightarrow> backoff_err option \<times> 's" where
  "ExponentialBackoff 0 sleep condition s = (Some ErrWaitTimeout, s)"
| "ExponentialBackoff (Suc n) sleep condition s =
     (case condition s of
        ((ok, e), s1) \<Rightarrow>
          if e \<noteq> None \<or> ok then (map_option ConditionErr e, s1)
          else if Suc n = 1 then (Some ErrWaitTimeout, s1)
          else ExponentialBackoff n sleep condition (sleep s1))"

definition OnError ::
  "nat \<Rightarrow> (err \<Rightarrow> bool) \<Rightarrow> (world \<Rightarrow> err option \<times> world) \<Rightarrow> world \<Rightarrow> err option \<times> world" where
  "OnError steps retriable fn w =
     (case ExponentialBackoff steps (\<lambda>(lastErr, w). (lastErr, time_Sleep w))
             (\<lambda>(lastErr, w).
                case fn w of
                  (None, w1) \<Rightarrow> ((True, None), (lastErr, w1))
                | (Some e, w1) \<Rightarrow>
                    if retriable e then ((False, None), (Some e, w1))
                    else ((False, Some e), (lastErr, w1)))
             (None, w) of
        (Some ErrWaitTimeout, (lastErr, w')) \<Rightarrow> (lastErr, w')
      | (Some (ConditionErr e), (lastErr, w')) \<Rightarrow> (Some e, w')
      | (None, (lastErr, w')) \<Rightarrow> (None, w'))"

record Backoff =
  Steps :: nat

definition DefaultRetry :: Backoff where
  "DefaultRetry = \<lparr>Steps = 5\<rparr>"

definition RetryOnConflict ::
  "Backoff \<Rightarrow> (world \<Rightarrow> err option \<times> world) \<Rightarrow> world \<Rightarrow> err option \<times> world" where
  "RetryOnConflict backoff fn w = OnError (Steps backoff) IsConflict fn w"

subsection \<open>Type assertions\<close>

text \<open>
  \<^verbatim>\<open>x.(T)\<close> in its one-result form panics when the dynamic type of \<open>x\<close> is not
  \<open>T\<close>. Indexing a map with an absent key gives \<^verbatim>\<open>nil\<close>, as a JSON null does.
\<close>

fun goTypeName :: "jval option \<Rightarrow> string" where
  "goTypeName None = ''nil''"
| "goTypeName (Some JNull) = ''nil''"
| "goTypeName (Some (JBool _)) = ''bool''"
| "goTypeName (Some (JNum _)) = ''int64''"
| "goTypeName (Some (JStr _)) = ''string''"
| "goTypeName (Some (JList _)) = ''[]interface {}''"
| "goTypeName (Some (JMap _)) = ''map[string]interface {}''"

fun assertMap :: "jval option \<Rightarrow> object result" where
  "assertMap (Some (JMap m)) = Return m"
| "assertMap x =
     Panic (''interface conversion: interface {} is '' @ goTypeName x @
            '', not map[string]interface {}'')"

fun assertString :: "jval option \<Rightarrow> string result" where
  "assertString (Some (JStr s)) = Return s"
| "assertString x =
     Panic (''interface conversion: interface {} is '' @ goTypeName x @ '', not string'')"

section \<open>cronjob/main.go\<close>

record Repository =
  Name :: string
  Namespace :: string
  URL :: string
  AccessToken :: string
  Username :: string
  Unstructured :: object

definition zeroRepository :: Repository where
  "zeroRepository =
     \<lparr>Name = [], Namespace = [], URL = [], AccessToken = [], Username = [],
      Unstructured = []\<rparr>"

fun getRepos_loop ::
  "object list \<Rightarrow> nat \<Rightarrow> Repository list \<Rightarrow> world \<Rightarrow> (Repository list \<times> world) result" where
  "getRepos_loop [] i repositories w = Return (repositories, w)"
| "getRepos_loop (repo # items) i repositories w =
     (case assertMap (map_of repo ''metadata'') of
        Panic m \<Rightarrow> Panic m
      | Return metadata \<Rightarrow>
          (case assertMap (map_of repo ''spec'') of
             Panic m \<Rightarrow> Panic m
           | Return spec \<Rightarrow>
               (case assertString (map_of spec ''repoUrl'') of
                  Panic m \<Rightarrow> Panic m
                | Return repoUrl \<Rightarrow>
                    (case assertString (map_of spec ''accessToken'') of
                       Panic m \<Rightarrow> Panic m
                     | Return accessToken \<Rightarrow>
                         (case assertString (map_of spec ''username'') of
                            Panic m \<Rightarrow> Panic m
                          | Return username \<Rightarrow>
                              getRepos_loop items (Suc i)
                                (repositories[i :=
                                   \<lparr>Name = GetName repo, Namespace = GetNamespace repo,
                                    URL = repoUrl, AccessToken = accessToken,
                                    Username = username, Unstructured = repo\<rparr>])
                                (slog_Info ''Found repo''
                                   [(''name'', LAny (map_of metadata ''name''))] w))))))"

definition getRepos :: "world \<Rightarrow> ((Repository list option \<times> err option) \<times> world) result" where
  "getRepos w =
     (case k8s_List ''tacos'' w of
        (Inl e, w1) \<Rightarrow> Return ((None, Some e), w1)
      | (Inr items, w1) \<Rightarrow>
          (case getRepos_loop items 0 (replicate (length items) zeroRepository) w1 of
             Panic m \<Rightarrow> Panic m
           | Return (repositories, w2) \<Rightarrow> Return ((Some repositories, None), w2)))"

definition getLatestCommit :: "Repository \<Rightarrow> world \<Rightarrow> (err + string) \<times> world" where
  "getLatestCommit repo w =
     (case git_Clone (URL repo) (Username repo) (AccessToken repo) w of
        (Inl e, w1) \<Rightarrow> (Inl e, w1)
      | (Inr r, w1) \<Rightarrow>
          (case Head r of
             Inl e \<Rightarrow> (Inl e, w1)
           | Inr hash \<Rightarrow> (Inr hash, w1)))"

record unstructuredChange =
  keys :: "string list"
  val :: string

definition changeset :: "Time \<Rightarrow> string \<Rightarrow> unstructuredChange list" where
  "changeset now hash =
     [\<lparr>keys = [''metadata'', ''annotations'', ''ernesto.0x42.in/last-sync-time''],
       val = Format_RFC1123 now\<rparr>,
      \<lparr>keys = [''metadata'', ''annotations'', ''ernesto.0x42.in/commit-hash''],
       val = hash\<rparr>]"

fun applyChanges :: "object \<Rightarrow> unstructuredChange list \<Rightarrow> err + object" where
  "applyChanges obj [] = Inr obj"
| "applyChanges obj (change # changes) =
     (case SetNestedField obj (JStr (val change)) (keys change) of
        Inl e \<Rightarrow> Inl e
      | Inr obj' \<Rightarrow> applyChanges obj' changes)"

text \<open>The function literal that \<open>processRepo\<close> hands to \<^verbatim>\<open>retry.RetryOnConflict\<close>.\<close>

definition retryFn :: "Repository \<Rightarrow> unstructuredChange list \<Rightarrow> world \<Rightarrow> err option \<times> world" where
  "retryFn repo changes w =
     (case k8s_Get (Namespace repo) (Name repo) w of
        (Inl getErr, w1) \<Rightarrow> (Some getErr, w1)
      | (Inr result, w1) \<Rightarrow>
          (case applyChanges result changes of
             Inl e \<Rightarrow> (Some e, w1)
           | Inr result' \<Rightarrow>
               (case k8s_Update (Namespace repo) result' w1 of
                  (Inl updateErr, w2) \<Rightarrow> (Some updateErr, w2)
                | (Inr _, w2) \<Rightarrow> (None, w2))))"

text \<open>The conflict-safe update of one record: the retry loop around \<open>retryFn\<close>.\<close>

definition applyChangeset :: "Repository \<Rightarrow> unstructuredChange list \<Rightarrow> world \<Rightarrow> err option \<times> world" where
  "applyChangeset repo changes w = RetryOnConflict DefaultRetry (retryFn repo changes) w"

fun errorString :: "err \<Rightarrow> string" where
  "errorString (Conflict m) = m"
| "errorString (NotFound m) = m"
| "errorString (ApiError m) = m"
| "errorString (GitError m) = m"
| "errorString (FieldError p) =
     ''value cannot be set because '' @ concat (map ((#) CHR ''.'') p) @
     '' is not a map[string]interface{}''"

text \<open>
  \<open>processRepo\<close>. The deferred \<^verbatim>\<open>wg.Done()\<close> is registered by the last statement
  of the function, so it runs on the return that follows it and on no other.
\<close>

definition processRepo :: "Repository \<Rightarrow> world \<Rightarrow> world result" where
  "processRepo repo w =
     (case getLatestCommit repo w of
        (Inl e, w1) \<Rightarrow>
          Return (slog_Error ''Failed to get latest commit''
                    [(''error'', LErr e), (''repository'', LStr (URL repo))] w1)
      | (Inr hash, w1) \<Rightarrow>
          (case time_Now
                  (slog_Info ''Latest commit hash retrieved from repository''
                     [(''repository'', LStr (Name repo)), (''hash'', LStr hash)] w1) of
             (now, w2) \<Rightarrow>
               (case applyChangeset repo (changeset now hash) w2 of
                  (None, w3) \<Rightarrow> wg_Done w3
                | (Some retryErr, w3) \<Rightarrow>
                    wg_Done
                      (slog_Warn ''failed to update GithubRepository''
                         [(''error'', LStr (errorString retryErr)),
                          (''namespace'', LStr (Namespace repo)),
                          (''name'', LStr (Name repo))] w3))))"

text \<open>
  \<open>main\<close>, from the point where the client exists. Each goroutine is run to its end
  where it is started: one of the schedules of the program. \<open>None\<close> is a \<open>main\<close>
  that never returns.
\<close>

fun startAll :: "Repository list \<Rightarrow> world \<Rightarrow> world result" where
  "startAll [] w = Return w"
| "startAll (repo # repos) w =
     (case wg_Add 1 w of
        Panic m \<Rightarrow> Panic m
      | Return w1 \<Rightarrow>
          (case processRepo repo (emit (EvGo (Namespace repo) (Name repo)) w1) of
             Panic m \<Rightarrow> Panic m
           | Return w2 \<Rightarrow> startAll repos w2))"

definition main :: "world \<Rightarrow> world result option" where
  "main w =
     (case getRepos (slog_Info ''Ernesto initialized'' [] w) of
        Panic m \<Rightarrow> Some (Panic m)
      | Return ((repos, Some e), w1) \<Rightarrow>
          (case startAll (case repos of None \<Rightarrow> [] | Some rs \<Rightarrow> rs)
                  (slog_Error ''Failed to get repos'' [(''error'', LErr e)] w1) of
             Panic m \<Rightarrow> Some (Panic m)
           | Return w2 \<Rightarrow> map_option Return (wg_Wait w2))
      | Return ((repos, None), w1) \<Rightarrow>
          (case startAll (case repos of None \<Rightarrow> [] | Some rs \<Rightarrow> rs) (spew_Dump w1) of
             Panic m \<Rightarrow> Some (Panic m)
           | Return w2 \<Rightarrow> map_option Return (wg_Wait w2)))"

section \<open>cmd/main.go\<close>

record Repository_cmd =
  Name_cmd :: string
  Namespace_cmd :: string
  URL_cmd :: string
  AccessToken_cmd :: string
  Username_cmd :: string

definition zeroRepository_cmd :: Repository_cmd where
  "zeroRepository_cmd =
     \<lparr>Name_cmd = [], Namespace_cmd = [], URL_cmd = [], AccessToken_cmd = [],
      Username_cmd = []\<rparr>"

fun getRepos_loop_cmd ::
  "object list \<Rightarrow> nat \<Rightarrow> Repository_cmd list \<Rightarrow> world \<Rightarrow> (Repository_cmd list \<times> world) result" where
  "getRepos_loop_cmd [] i repositories w = Return (repositories, w)"
| "getRepos_loop_cmd (repo # items) i repositories w =
     (case assertMap (map_of repo ''metadata'') of
        Panic m \<Rightarrow> Panic m
      | Return metadata \<Rightarrow>
          (case assertMap (map_of repo ''spec'') of
             Panic m \<Rightarrow> Panic m
           | Return spec \<Rightarrow>
               (case assertString (map_of spec ''repoUrl'') of
                  Panic m \<Rightarrow> Panic m
                | Return repoUrl \<Rightarrow>
                    (case assertString (map_of spec ''accessToken'') of
                       Panic m \<Rightarrow> Panic m
                     | Return accessToken \<Rightarrow>
                         (case assertString (map_of spec ''username'') of
                            Panic m \<Rightarrow> Panic m
                          | Return username \<Rightarrow>
                              getRepos_loop_cmd items (Suc i)
                                (repositories[i :=
                                   \<lparr>Name_cmd = GetName repo, Namespace_cmd = GetNamespace repo,
                                    URL_cmd = repoUrl, AccessToken_cmd = accessToken,
                                    Username_cmd = username\<rparr>])
                                (slog_Info ''Found repo''
                                   [(''name'', LAny (map_of metadata ''name''))] w))))))"

definition getRepos_cmd :: "world \<Rightarrow> ((Repository_cmd list option \<times> err option) \<times> world) result" where
  "getRepos_cmd w =
     (case k8s_List ''tacos'' w of
        (Inl e, w1) \<Rightarrow> Return ((None, Some e), w1)
      | (Inr items, w1) \<Rightarrow>
          (case getRepos_loop_cmd items 0 (replicate (length items) zeroRepository_cmd) w1 of
             Panic m \<Rightarrow> Panic m
           | Return (repositories, w2) \<Rightarrow> Return ((Some repositories, None), w2)))"

definition getLatestCommit_cmd :: "Repository_cmd \<Rightarrow> world \<Rightarrow> (err + string) \<times> world" where
  "getLatestCommit_cmd repo w =
     (case git_Clone (URL_cmd repo) (Username_cmd repo) (AccessToken_cmd repo) w of
        (Inl e, w1) \<Rightarrow> (Inl e, w1)
      | (Inr r, w1) \<Rightarrow>
          (case Head r of
             Inl e \<Rightarrow> (Inl e, w1)
           | Inr hash \<Rightarrow> (Inr hash, w1)))"

definition processRepo_cmd :: "Repository_cmd \<Rightarrow> world \<Rightarrow> world result" where
  "processRepo_cmd repo w =
     (case getLatestCommit_cmd repo w of
        (Inl e, w1) \<Rightarrow>
          Return (slog_Error ''Failed to get latest commit''
                    [(''error'', LErr e), (''repository'', LStr (URL_cmd repo))] w1)
      | (Inr hash, w1) \<Rightarrow>
          wg_Done
            (slog_Info ''Latest commit hash retrieved from repository''
               [(''repository'', LStr (Name_cmd repo)), (''hash'', LStr hash)] w1))"

fun startAll_cmd :: "Repository_cmd list \<Rightarrow> world \<Rightarrow> world result" where
  "startAll_cmd [] w = Return w"
| "startAll_cmd (repo # repos) w =
     (case wg_Add 1 w of
        Panic m \<Rightarrow> Panic m
      | Return w1 \<Rightarrow>
          (case processRepo_cmd repo
                  (emit (EvGo (Namespace_cmd repo) (Name_cmd repo)) w1) of
             Panic m \<Rightarrow> Panic m
           | Return w2 \<Rightarrow> startAll_cmd repos w2))"

text \<open>
  The \<^verbatim>\<open>select\<close> of the loop receives from the ticker or from the \<^verbatim>\<open>Done\<close>
  channel of the signal context. Which of the two each iteration takes is the
  schedule \<open>sched\<close>, indexed by the iteration. The loop is run with fuel: \<open>None\<close>
  is a loop that is still running when the fuel is used up.
\<close>

datatype select_case = TickerC | CtxDone

definition cancel :: "world \<Rightarrow> world" where
  "cancel w = emit EvCancel w"

fun Loop_cmd :: "nat \<Rightarrow> (nat \<Rightarrow> select_case) \<Rightarrow> nat \<Rightarrow> world \<Rightarrow> world result option" where
  "Loop_cmd 0 sched i w = None"
| "Loop_cmd (Suc fuel) sched i w =
     (case sched i of
        TickerC \<Rightarrow>
          (case getRepos_cmd w of
             Panic m \<Rightarrow> Some (Panic m)
           | Return ((repos, Some e), w1) \<Rightarrow>
               Loop_cmd fuel sched (Suc i)
                 (slog_Error ''Failed to get repos'' [(''error'', LErr e)] w1)
           | Return ((repos, None), w1) \<Rightarrow>
               (case startAll_cmd (case repos of None \<Rightarrow> [] | Some rs \<Rightarrow> rs) w1 of
                  Panic m \<Rightarrow> Some (Panic m)
                | Return w2 \<Rightarrow> Loop_cmd fuel sched (Suc i) w2))
      | CtxDone \<Rightarrow> Some (Return (cancel w)))"

definition main_cmd :: "nat \<Rightarrow> (nat \<Rightarrow> select_case) \<Rightarrow> world \<Rightarrow> world result option" where
  "main_cmd fuel sched w =
     (case getRepos_cmd (slog_Info ''Ernesto initialized'' [] w) of
        Panic m \<Rightarrow> Some (Panic m)
      | Return ((repos, e), w1) \<Rightarrow>
          (case Loop_cmd fuel sched 0
                  (case e of
                     Some e' \<Rightarrow> slog_Error ''Failed to get repos'' [(''error'', LErr e')] w1
                   | None \<Rightarrow> spew_Dump w1) of
             None \<Rightarrow> None
           | Some (Panic m) \<Rightarrow> Some (Panic m)
           | Some (Return w2) \<Rightarrow> map_option (\<lambda>w3. Return (cancel w3)) (wg_Wait w2)))"

section \<open>The third variant (ticker of ten seconds)\<close>

record Repository_p1 =
  Name_p1 :: string
  Namespace_p1 :: string
  URL_p1 :: "string option"
  AccessToken_p1 :: string

definition zeroRepository_p1 :: Repository_p1 where
  "zeroRepository_p1 = \<lparr>Name_p1 = [], Namespace_p1 = [], URL_p1 = None, AccessToken_p1 = []\<rparr>"

fun getRepos_loop_p1 ::
  "object list \<Rightarrow> nat \<Rightarrow> Repository_p1 list \<Rightarrow> world \<Rightarrow> (Repository_p1 list \<times> world) result" where
  "getRepos_loop_p1 [] i repositories w = Return (repositories, w)"
| "getRepos_loop_p1 (repo # items) i repositories w =
     (case assertMap (map_of repo ''metadata'') of
        Panic m \<Rightarrow> Panic m
      | Return metadata \<Rightarrow>
          getRepos_loop_p1 items (Suc i)
            (repositories[i :=
               \<lparr>Name_p1 = GetName repo, Namespace_p1 = GetNamespace repo,
                URL_p1 = None, AccessToken_p1 = []\<rparr>])
            (slog_Info ''Found repo'' [(''name'', LAny (map_of metadata ''name''))] w))"

definition getRepos_p1 :: "world \<Rightarrow> ((Repository_p1 list option \<times> err option) \<times> world) result" where
  "getRepos_p1 w =
     (case k8s_List ''tacos'' w of
        (Inl e, w1) \<Rightarrow> Return ((None, Some e), w1)
      | (Inr items, w1) \<Rightarrow>
          (case getRepos_loop_p1 items 0 (replicate (length items) zeroRepository_p1) w1 of
             Panic m \<Rightarrow> Panic m
           | Return (repositories, w2) \<Rightarrow> Return ((None, None), w2)))"

fun Loop_p1 :: "nat \<Rightarrow> (nat \<Rightarrow> select_case) \<Rightarrow> nat \<Rightarrow> world \<Rightarrow> world result option" where
  "Loop_p1 0 sched i w = None"
| "Loop_p1 (Suc fuel) sched i w =
     (case sched i of
        TickerC \<Rightarrow>
          (case getRepos_p1 w of
             Panic m \<Rightarrow> Some (Panic m)
           | Return ((repos, Some e), w1) \<Rightarrow>
               Loop_p1 fuel sched (Suc i)
                 (slog_Error ''Failed to get repos'' [(''error'', LErr e)] w1)
           | Return ((repos, None), w1) \<Rightarrow> Loop_p1 fuel sched (Suc i) (spew_Dump w1))
      | CtxDone \<Rightarrow> Loop_p1 fuel sched (Suc i) (cancel w))"

definition main_p1 :: "nat \<Rightarrow> (nat \<Rightarrow> select_case) \<Rightarrow> world \<Rightarrow> world result option" where
  "main_p1 fuel sched w =
     (case getRepos_p1 (slog_Info ''Ernesto initialized'' [] w) of
        Panic m \<Rightarrow> Some (Panic m)
      | Return ((repos, e), w1) \<Rightarrow>
          Loop_p1 fuel sched 0
            (case e of
               Some e' \<Rightarrow> slog_Error ''Failed to get repos'' [(''error'', LErr e')] w1
             | None \<Rightarrow> spew_Dump w1))"

section \<open>Notions used to state the properties\<close>

text \<open>The other clients of the store stay away and no request fails on its way.\<close>

definition quiet :: "nat \<Rightarrow> (store \<Rightarrow> store) \<times> err option" where
  "quiet n = (id, None)"

text \<open>Two paths of which neither leads through the other.\<close>

definition apart :: "string list \<Rightarrow> string list \<Rightarrow> bool" where
  "apart p q \<longleftrightarrow> \<not> prefix p q \<and> \<not> prefix q p"

text \<open>
  The world in which the attempt of index \<open>k\<close> of a retry loop starts, when every
  attempt before it is followed by a pause: attempts are counted from zero.
\<close>

fun attemptStart :: "nat \<Rightarrow> (world \<Rightarrow> err option \<times> world) \<Rightarrow> world \<Rightarrow> world" where
  "attemptStart 0 fn w = w"
| "attemptStart (Suc k) fn w = time_Sleep (snd (fn (attemptStart k fn w)))"

text \<open>
  What the other clients alone make of the store during the \<open>n\<close> requests that
  follow request \<open>c\<close>, and the relation between two worlds of which the second
  holds nothing that this process has written.
\<close>

fun othersOnly :: "(nat \<Rightarrow> (store \<Rightarrow> store) \<times> err option) \<Rightarrow> nat \<Rightarrow> nat \<Rightarrow> store \<Rightarrow> store" where
  "othersOnly e c 0 objs = objs"
| "othersOnly e c (Suc n) objs = othersOnly e (Suc c) n (fst (e c) objs)"

definition untouched :: "world \<Rightarrow> world \<Rightarrow> bool" where
  "untouched w w' \<longleftrightarrow>
     env w' = env w \<and> calls w \<le> calls w' \<and>
     objects w' = othersOnly (env w) (calls w) (calls w' - calls w) (objects w)"

text \<open>
  A sequence of events in which every update submits the record that the request
  just before it has read, with the changes applied to it. \<open>prev\<close> is the event
  before the sequence.
\<close>

fun fresh :: "unstructuredChange list \<Rightarrow> event option \<Rightarrow> event list \<Rightarrow> bool" where
  "fresh changes prev [] = True"
| "fresh changes prev (EvUpdate ns obj r # evs) =
     ((case prev of
         Some (EvGet ns' name (Inr result)) \<Rightarrow> ns' = ns \<and> applyChanges result changes = Inr obj
       | _ \<Rightarrow> False) \<and>
      fresh changes (Some (EvUpdate ns obj r)) evs)"
| "fresh changes prev (e # evs) = fresh changes (Some e) evs"

text \<open>
  A record on which the two paths of the changeset can be walked: \<^verbatim>\<open>metadata\<close> and,
  inside it, \<^verbatim>\<open>annotations\<close> are each absent or a map.
\<close>

definition walkable :: "object \<Rightarrow> bool" where
  "walkable obj \<longleftrightarrow>
     (case map_of obj ''metadata'' of
        None \<Rightarrow> True
      | Some (JMap metadata) \<Rightarrow>
          (case map_of metadata ''annotations'' of
             None \<Rightarrow> True
           | Some (JMap annotations) \<Rightarrow> True
           | Some _ \<Rightarrow> False)
      | Some _ \<Rightarrow> False)"

text \<open>The reads of a record among the events.\<close>

fun isGet :: "event \<Rightarrow> bool" where
  "isGet (EvGet ns name r) = True"
| "isGet e = False"

text \<open>A record from which \<open>getRepos\<close> can read every field it asserts.\<close>

fun isMap :: "jval option \<Rightarrow> bool" where
  "isMap (Some (JMap _)) = True"
| "isMap _ = False"

fun isString :: "jval option \<Rightarrow> bool" where
  "isString (Some (JStr _)) = True"
| "isString _ = False"

definition decodable :: "object \<Rightarrow> bool" where
  "decodable obj \<longleftrightarrow>
     isMap (map_of obj ''metadata'') \<and>
     (case map_of obj ''spec'' of
        Some (JMap spec) \<Rightarrow>
          isString (map_of spec ''repoUrl'') \<and> isString (map_of spec ''accessToken'') \<and>
          isString (map_of spec ''username'')
      | _ \<Rightarrow> False)"

text \<open>
  The records that the list request of \<open>getRepos\<close> returns when it does not fail, and
  the descriptor that \<open>getRepos\<close> builds from a record.
\<close>

definition listed :: "world \<Rightarrow> object list" where
  "listed w =
     filter (\<lambda>obj. GetNamespace obj = ''tacos'') (fst (env w (calls w)) (objects w))"

definition decoded :: "object \<Rightarrow> Repository" where
  "decoded repo =
     \<lparr>Name = GetName repo, Namespace = GetNamespace repo,
      URL = getNestedString repo [''spec'', ''repoUrl''],
      AccessToken = getNestedString repo [''spec'', ''accessToken''],
      Username = getNestedString repo [''spec'', ''username''],
      Unstructured = repo\<rparr>"

definition decoded_cmd :: "object \<Rightarrow> Repository_cmd" where
  "decoded_cmd repo =
     \<lparr>Name_cmd = GetName repo, Namespace_cmd = GetNamespace repo,
      URL_cmd = getNestedString repo [''spec'', ''repoUrl''],
      AccessToken_cmd = getNestedString repo [''spec'', ''accessToken''],
      Username_cmd = getNestedString repo [''spec'', ''username'']\<rparr>"

text \<open>The retry loop with the last retriable error as a parameter.\<close>

definition backoffStep ::
  "(err \<Rightarrow> bool) \<Rightarrow> (world \<Rightarrow> err option \<times> world) \<Rightarrow> nat \<Rightarrow> err option \<Rightarrow> world \<Rightarrow> err option \<times> world" where
  "backoffStep retriable fn n lastErr w =
     (case ExponentialBackoff n (\<lambda>(lastErr, w). (lastErr, time_Sleep w))
             (\<lambda>(lastErr, w).
                case fn w of
                  (None, w1) \<Rightarrow> ((True, None), (lastErr, w1))
                | (Some e, w1) \<Rightarrow>
                    if retriable e then ((False, None), (Some e, w1))
                    else ((False, Some e), (lastErr, w1)))
             (lastErr, w) of
        (Some ErrWaitTimeout, (lastErr, w')) \<Rightarrow> (lastErr, w')
      | (Some (ConditionErr e), (lastErr, w')) \<Rightarrow> (Some e, w')
      | (None, (lastErr, w')) \<Rightarrow> (None, w'))"

subsection \<open>Examples\<close>

definition example_record :: object where
  "example_record =
     [(''metadata'', JMap [(''name'', JStr ''repo-a''), (''namespace'', JStr ''tacos''),
                           (''resourceVersion'', JStr ''7'')]),
      (''spec'', JMap [(''repoUrl'', JStr ''https://example/a.git''),
                       (''username'', JStr ''u''), (''accessToken'', JStr ''t'')])]"

definition example_malformed :: object where
  "example_malformed =
     [(''metadata'', JMap [(''name'', JStr ''repo-b''), (''namespace'', JStr ''tacos'')]),
      (''spec'', JMap [(''username'', JStr ''u''), (''accessToken'', JStr ''t'')])]"

definition example_remote :: "string \<Rightarrow> string \<Rightarrow> string \<Rightarrow> err + Repository_git" where
  "example_remote url username password =
     (if url = ''https://example/a.git'' then
        (if username = ''u'' \<and> password = ''t'' then Inr (Repository_git (Inr ''abc123''))
         else Inl (GitError ''authentication required''))
      else Inl (GitError ''repository not found''))"

definition example_time :: Time where
  "example_time =
     \<lparr>Year = 2024, Month = March, Day = 5, Hour = 9, Minute = 30, Second = 7,
      Weekday = Tuesday, Zone = ''UTC''\<rparr>"

definition example_world :: world where
  "example_world =
     \<lparr>objects = [example_record], revision = 7, env = quiet, calls = 0,
      remote = example_remote, wallclock = example_time, wg = 1, log = []\<rparr>"

definition example_repo :: Repository where
  "example_repo =
     \<lparr>Name = ''repo-a'', Namespace = ''tacos'', URL = ''https://example/a.git'',
      AccessToken = ''t'', Username = ''u'', Unstructured = example_record\<rparr>"

definition example_denied :: Repository where
  "example_denied = example_repo\<lparr>AccessToken := ''expired''\<rparr>"

definition example_denied_cmd :: Repository_cmd where
  "example_denied_cmd =
     \<lparr>Name_cmd = ''repo-a'', Namespace_cmd = ''tacos'', URL_cmd = ''https://example/a.git'',
      AccessToken_cmd = ''expired'', Username_cmd = ''u''\<rparr>"

definition example_expired :: object where
  "example_expired =
     [(''metadata'', JMap [(''name'', JStr ''repo-a''), (''namespace'', JStr ''tacos''),
                           (''resourceVersion'', JStr ''7'')]),
      (''spec'', JMap [(''repoUrl'', JStr ''https://example/a.git''),
                       (''username'', JStr ''u''), (''accessToken'', JStr ''expired'')])]"

definition example_resolved :: world where
  "example_resolved = example_world\<lparr>log := [EvClone ''https://example/a.git'']\<rparr>"

definition example_started :: world where
  "example_started =
     example_world\<lparr>log :=
       [EvClone ''https://example/a.git'',
        EvLog LevelInfo ''Latest commit hash retrieved from repository''
          [(''repository'', LStr ''repo-a''), (''hash'', LStr ''abc123'')],
        EvNow]\<rparr>"

text \<open>
  Another client that rewrites the record, under a new version, each time this process
  is about to update it; one that does so once; and one that does so once, after
  which the next read fails on its way.
\<close>

definition example_rewritten :: "nat \<Rightarrow> object" where
  "example_rewritten n =
     [(''metadata'', JMap [(''name'', JStr ''repo-a''), (''namespace'', JStr ''tacos''),
                           (''resourceVersion'', JNum (int n)),
                           (''labels'', JMap [(''team'', JStr ''tacos'')])]),
      (''spec'', JMap [(''repoUrl'', JStr ''https://example/a.git''),
                       (''username'', JStr ''u''), (''accessToken'', JStr ''t'')])]"

definition example_rival :: "nat \<Rightarrow> (store \<Rightarrow> store) \<times> err option" where
  "example_rival n = (if odd n then (\<lambda>objs. [example_rewritten n]) else id, None)"

definition example_rival_once :: "nat \<Rightarrow> (store \<Rightarrow> store) \<times> err option" where
  "example_rival_once n = (if n = 1 then (\<lambda>objs. [example_rewritten n]) else id, None)"

definition example_flaky :: "nat \<Rightarrow> (store \<Rightarrow> store) \<times> err option" where
  "example_flaky n =
     (if n = 1 then (\<lambda>objs. [example_rewritten n]) else id,
      if n = 2 then Some (ApiError ''connection refused'') else None)"

definition example_contended :: world where
  "example_contended = example_started\<lparr>env := example_rival\<rparr>"

definition example_contended_once :: world where
  "example_contended_once = example_world\<lparr>env := example_rival_once\<rparr>"

definition example_interrupted :: world where
  "example_interrupted = example_started\<lparr>env := example_flaky\<rparr>"

text \<open>
  A record that already carries annotations, among them a commit hash of an earlier
  pass; a record whose \<^verbatim>\<open>annotations\<close> is a string; a store that holds the latter;
  and a store that answers every request, reads included, with a conflict.
\<close>

definition example_annotated :: object where
  "example_annotated =
     [(''metadata'', JMap [(''name'', JStr ''repo-a''), (''namespace'', JStr ''tacos''),
                           (''annotations'',
                            JMap [(''ernesto.0x42.in/commit-hash'', JStr ''0ld000''),
                                  (''owner'', JStr ''ops'')])]),
      (''spec'', JMap [(''repoUrl'', JStr ''https://example/a.git''),
                       (''username'', JStr ''u''), (''accessToken'', JStr ''t'')])]"

definition example_unwalkable :: object where
  "example_unwalkable =
     [(''metadata'', JMap [(''name'', JStr ''repo-a''), (''namespace'', JStr ''tacos''),
                           (''annotations'', JStr ''none'')]),
      (''spec'', JMap [(''repoUrl'', JStr ''https://example/a.git''),
                       (''username'', JStr ''u''), (''accessToken'', JStr ''t'')])]"

definition example_blocked :: world where
  "example_blocked = example_started\<lparr>objects := [example_unwalkable]\<rparr>"

definition example_busy :: world where
  "example_busy = example_started\<lparr>env := (\<lambda>n. (id, Some (Conflict ''busy'')))\<rparr>"

section \<open>Properties\<close>

lemma set_get:
  "setNestedFieldNoCopy m v p = Inr m' \<Longrightarrow> NestedFieldNoCopy m' p = Some v"
proof (induction m v p arbitrary: m' rule: setNestedFieldNoCopy.induct)
  case (1 m v)
  then show ?case by simp
next
  case (2 m v field)
  then show ?case by (auto simp: update_conv')
next
  case (3 m v field f2 ks)
  then show ?case
    by (auto simp: update_conv' split: option.splits jval.splits sum.splits err.splits)
qed

lemma set_cons_cases:
  assumes "setNestedFieldNoCopy m v (field # f2 # ks) = Inr m'"
  obtains sub sub' where
    "map_of m field = Some (JMap sub) \<or> (map_of m field = None \<and> sub = [])"
    "setNestedFieldNoCopy sub v (f2 # ks) = Inr sub'"
    "m' = AList.update field (JMap sub') m"
  using assms
  by (auto split: option.splits jval.splits sum.splits err.splits)

lemma NestedFieldNoCopy_empty: "ks \<noteq> [] \<Longrightarrow> NestedFieldNoCopy [] ks = None"
  by (cases ks; cases "tl ks") auto

lemma set_frame:
  "setNestedFieldNoCopy m v p = Inr m' \<Longrightarrow> \<not> prefix p q \<Longrightarrow> \<not> prefix q p \<Longrightarrow>
   NestedFieldNoCopy m' q = NestedFieldNoCopy m q"
proof (induction m v p arbitrary: m' q rule: setNestedFieldNoCopy.induct)
  case (1 m v)
  then show ?case by simp
next
  case (2 m v field)
  from "2.prems" obtain a q' where q: "q = a # q'" and ne: "a \<noteq> field"
    by (cases q) auto
  from "2.prems" have m': "m' = AList.update field v m" by simp
  show ?case
    by (cases q') (simp_all add: q m' update_conv' ne)
next
  case (3 m v field f2 ks)
  from "3.prems"(1) obtain sub sub' where
    sub: "map_of m field = Some (JMap sub) \<or> (map_of m field = None \<and> sub = [])" and
    rec: "setNestedFieldNoCopy sub v (f2 # ks) = Inr sub'" and
    m': "m' = AList.update field (JMap sub') m"
    by (rule set_cons_cases)
  from "3.prems" obtain a q' where q: "q = a # q'"
    by (cases q) auto
  show ?case
  proof (cases "a = field")
    case False
    then show ?thesis
      by (cases q') (simp_all add: q m' update_conv')
  next
    case True
    with "3.prems" q obtain b q'' where q': "q' = b # q''"
      by (cases q') auto
    from "3.prems" True q have inc: "\<not> prefix (f2 # ks) q'" "\<not> prefix q' (f2 # ks)"
      by auto
    have new: "NestedFieldNoCopy m' q = NestedFieldNoCopy sub' q'"
      by (simp add: q q' m' True update_conv')
    have old: "NestedFieldNoCopy m q = NestedFieldNoCopy sub q'"
      using sub by (auto simp: q q' True NestedFieldNoCopy_empty)
    from sub show ?thesis
    proof
      assume s: "map_of m field = Some (JMap sub)"
      have "NestedFieldNoCopy sub' q' = NestedFieldNoCopy sub q'"
        using "3.IH"(2) s rec inc by blast
      then show ?thesis
        by (simp add: new old)
    next
      assume s: "map_of m field = None \<and> sub = []"
      then have rec': "setNestedFieldNoCopy [] v (f2 # ks) = Inr sub'"
        using rec by simp
      have "NestedFieldNoCopy sub' q' = NestedFieldNoCopy [] q'"
        using "3.IH"(1) s rec' inc by blast
      with s show ?thesis
        by (simp add: new old)
    qed
  qed
qed

lemma namespace_metadata:
  "GetNamespace obj = ns \<Longrightarrow> ns \<noteq> [] \<Longrightarrow> \<exists>md. map_of obj ''metadata'' = Some (JMap md)"
  by (auto simp: GetNamespace_def getNestedString_def split: option.splits jval.splits)

lemma getRepos_loop_p1_total:
  "\<forall>obj \<in> set items. \<exists>md. map_of obj ''metadata'' = Some (JMap md) \<Longrightarrow>
   \<exists>rs w'. getRepos_loop_p1 items i repositories w = Return (rs, w')"
  by (induction items arbitrary: i repositories w) auto

lemma k8s_List_items:
  "k8s_List ns w = (Inr items, w1) \<Longrightarrow> \<forall>obj \<in> set items. GetNamespace obj = ns"
  by (auto simp: k8s_List_def request_def split: prod.splits option.splits)

lemma getRepos_p1_cases:
  "(\<exists>e w'. getRepos_p1 w = Return ((None, Some e), w')) \<or> (\<exists>w'. getRepos_p1 w = Return ((None, None), w'))"
proof (cases "k8s_List ''tacos'' w")
  case (Pair r w1)
  show ?thesis
  proof (cases r)
    case (Inl e)
    with Pair show ?thesis by (simp add: getRepos_p1_def)
  next
    case (Inr items)
    with Pair have "\<forall>obj \<in> set items. GetNamespace obj = ''tacos''"
      using k8s_List_items by blast
    then have "\<forall>obj \<in> set items. \<exists>md. map_of obj ''metadata'' = Some (JMap md)"
      using namespace_metadata by fastforce
    from getRepos_loop_p1_total[OF this] obtain rs w' where
      "getRepos_loop_p1 items 0 (replicate (length items) zeroRepository_p1) w1 = Return (rs, w')"
      by blast
    with Pair Inr show ?thesis by (simp add: getRepos_p1_def)
  qed
qed

lemma Loop_p1_never_returns: "Loop_p1 fuel sched i w = None"
proof (induction fuel arbitrary: i w)
  case 0
  show ?case by simp
next
  case (Suc fuel)
  show ?case
  proof (cases "sched i")
    case CtxDone
    then show ?thesis by (simp add: Suc)
  next
    case TickerC
    from getRepos_p1_cases[of w] show ?thesis
      by (auto simp: TickerC Suc)
  qed
qed

lemma OnError_backoffStep: "OnError n r fn w = backoffStep r fn n None w"
  by (simp add: OnError_def backoffStep_def)

lemma backoffStep_Suc:
  "backoffStep r fn (Suc n) l w =
     (case fn w of
        (None, w1) \<Rightarrow> (None, w1)
      | (Some e, w1) \<Rightarrow>
          if r e then (if n = 0 then (Some e, w1) else backoffStep r fn n (Some e) (time_Sleep w1))
          else (Some e, w1))"
  by (cases "fn w") (auto simp: backoffStep_def split: option.splits)

lemma backoffStep_lastErr:
  "backoffStep r fn (Suc n) l w = backoffStep r fn (Suc n) l' w"
proof (induction n arbitrary: l l' w)
  case 0
  show ?case by (simp add: backoffStep_Suc)
next
  case (Suc n)
  show ?case
    by (subst (1 2) backoffStep_Suc) (auto split: prod.splits option.splits)
qed

lemma OnError_Suc:
  "OnError (Suc n) r fn w =
     (case fn w of
        (None, w1) \<Rightarrow> (None, w1)
      | (Some e, w1) \<Rightarrow>
          if r e then (if n = 0 then (Some e, w1) else OnError n r fn (time_Sleep w1))
          else (Some e, w1))"
proof -
  have "n \<noteq> 0 \<Longrightarrow> backoffStep r fn n (Some e) w' = backoffStep r fn n None w'" for e w'
    using backoffStep_lastErr[of r fn "n - 1"] by (cases n) auto
  then show ?thesis
    by (auto simp: OnError_backoffStep backoffStep_Suc split: prod.splits option.splits)
qed

lemma OnError_0: "OnError 0 r fn w = (None, w)"
  by (simp add: OnError_def)

lemma OnError_skip:
  "k < n \<Longrightarrow> \<forall>j<k. \<exists>e. fst (fn (attemptStart j fn w)) = Some e \<and> r e \<Longrightarrow>
   OnError n r fn w = OnError (n - k) r fn (attemptStart k fn w)"
proof (induction k)
  case 0
  show ?case by simp
next
  case (Suc k)
  then have eq: "OnError n r fn w = OnError (n - k) r fn (attemptStart k fn w)"
    by simp
  from Suc.prems obtain e where e: "fst (fn (attemptStart k fn w)) = Some e" "r e"
    by blast
  from Suc.prems have nk: "n - k = Suc (n - Suc k)" "n - Suc k \<noteq> 0"
    by arith+
  show ?case
    unfolding eq nk(1)
    by (subst OnError_Suc) (use e nk(2) in \<open>auto split: prod.splits option.splits\<close>)
qed

lemma OnError_ends:
  assumes "k < n"
    and "\<forall>j<k. \<exists>e. fst (fn (attemptStart j fn w)) = Some e \<and> r e"
    and "fn (attemptStart k fn w) = (res, w')"
    and "case res of None \<Rightarrow> True | Some e \<Rightarrow> \<not> r e \<or> Suc k = n"
  shows "OnError n r fn w = (res, w')"
proof -
  from assms(1) have nk: "n - k = Suc (n - Suc k)" by arith
  have "OnError n r fn w = OnError (n - k) r fn (attemptStart k fn w)"
    using assms(1,2) by (rule OnError_skip)
  also have "\<dots> = (res, w')"
    unfolding nk using assms(1,3,4)
    by (subst OnError_Suc) (auto split: option.splits)
  finally show ?thesis .
qed

lemma OnError_Some_rel:
  assumes step: "\<And>w e w1. fn w = (Some e, w1) \<Longrightarrow> R w w1"
    and sleep: "\<And>w. R w (time_Sleep w)"
    and trans: "\<And>a b c. R a b \<Longrightarrow> R b c \<Longrightarrow> R a c"
  shows "OnError n r fn w = (Some e, w') \<Longrightarrow> R w w'"
proof (induction n arbitrary: w)
  case 0
  then show ?case by (simp add: OnError_0)
next
  case (Suc n)
  obtain res w1 where f: "fn w = (res, w1)" by (cases "fn w")
  show ?case
  proof (cases res)
    case None
    with Suc.prems f show ?thesis by (simp add: OnError_Suc)
  next
    case (Some e1)
    with f have R1: "R w w1" using step by blast
    show ?thesis
    proof (cases "r e1 \<and> n \<noteq> 0")
      case False
      with Suc.prems f Some have "w' = w1"
        by (auto simp: OnError_Suc split: if_splits)
      with R1 show ?thesis by simp
    next
      case True
      with Suc.prems f Some have "OnError n r fn (time_Sleep w1) = (Some e, w')"
        by (simp add: OnError_Suc)
      then have "R (time_Sleep w1) w'" by (rule Suc.IH)
      with R1 sleep[of w1] show ?thesis by (blast intro: trans)
    qed
  qed
qed

lemma OnError_rel:
  assumes step: "\<And>w res w1. fn w = (res, w1) \<Longrightarrow> R w w1"
    and sleep: "\<And>w. R w (time_Sleep w)"
    and refl: "\<And>w. R w w"
    and trans: "\<And>a b c. R a b \<Longrightarrow> R b c \<Longrightarrow> R a c"
  shows "OnError n r fn w = (res, w') \<Longrightarrow> R w w'"
proof (induction n arbitrary: w)
  case 0
  then show ?case by (simp add: OnError_0 refl)
next
  case (Suc n)
  obtain res1 w1 where f: "fn w = (res1, w1)" by (cases "fn w")
  then have R1: "R w w1" using step by blast
  show ?case
  proof (cases "\<exists>e1. res1 = Some e1 \<and> r e1 \<and> n \<noteq> 0")
    case False
    with Suc.prems f have "w' = w1"
      by (cases res1) (auto simp: OnError_Suc split: if_splits)
    with R1 show ?thesis by simp
  next
    case True
    with Suc.prems f have "OnError n r fn (time_Sleep w1) = (res, w')"
      by (auto simp: OnError_Suc)
    then have "R (time_Sleep w1) w'" by (rule Suc.IH)
    with R1 sleep[of w1] show ?thesis by (blast intro: trans)
  qed
qed

lemma OnError_None:
  "OnError n r fn w = (None, w') \<Longrightarrow> 0 < n \<Longrightarrow> \<exists>w0. fn w0 = (None, w')"
proof (induction n arbitrary: w)
  case 0
  then show ?case by simp
next
  case (Suc n)
  obtain res1 w1 where f: "fn w = (res1, w1)" by (cases "fn w")
  show ?case
  proof (cases res1)
    case None
    with Suc.prems f show ?thesis by (auto simp: OnError_Suc)
  next
    case (Some e1)
    with Suc.prems f have "OnError n r fn (time_Sleep w1) = (None, w')" "0 < n"
      by (auto simp: OnError_Suc split: if_splits)
    then show ?thesis by (rule Suc.IH)
  qed
qed

lemma othersOnly_add:
  "othersOnly e c (m + n) objs = othersOnly e (c + m) n (othersOnly e c m objs)"
  by (induction m arbitrary: c objs) auto

lemma untouched_refl: "untouched w w"
  by (simp add: untouched_def)

lemma untouched_trans:
  assumes "untouched a b" "untouched b c"
  shows "untouched a c"
proof -
  from assms have e: "env b = env a" "env c = env a"
    and le: "calls a \<le> calls b" "calls b \<le> calls c"
    and ob: "objects b = othersOnly (env a) (calls a) (calls b - calls a) (objects a)"
    and oc: "objects c = othersOnly (env a) (calls b) (calls c - calls b) (objects b)"
    by (simp_all add: untouched_def)
  from le have split: "calls c - calls a = (calls b - calls a) + (calls c - calls b)"
    and start: "calls a + (calls b - calls a) = calls b"
    by arith+
  have "objects c = othersOnly (env a) (calls a) (calls c - calls a) (objects a)"
    unfolding split othersOnly_add start using oc ob by simp
  with e le show ?thesis by (simp add: untouched_def)
qed

lemma untouched_emit: "untouched w w' \<Longrightarrow> untouched w (emit e w')"
  by (simp add: untouched_def emit_def)

lemma untouched_request: "request w = (fault, w1) \<Longrightarrow> untouched w w1"
  by (auto simp: untouched_def request_def split: prod.splits)

lemma request_log: "request w = (fault, w1) \<Longrightarrow> log w1 = log w"
  by (auto simp: request_def split: prod.splits)

lemma untouched_Sleep: "untouched w (time_Sleep w)"
  by (simp add: time_Sleep_def untouched_emit untouched_refl)

lemma k8s_Get_shape:
  assumes "k8s_Get ns name w = (r, w1)"
  obtains w0 where "untouched w w0" "log w0 = log w" "w1 = emit (EvGet ns name r) w0"
    "r = Inr obj \<Longrightarrow> name \<noteq> [] \<and> find (hasKey ns name) (objects w0) = Some obj"
proof (cases "name = []")
  case True
  with assms have "w1 = emit (EvGet ns name r) w" "\<forall>obj. r \<noteq> Inr obj"
    by (auto simp: k8s_Get_def)
  with that[of w] show ?thesis by (simp add: untouched_refl)
next
  case False
  obtain fault w0 where rq: "request w = (fault, w0)" by (cases "request w")
  then have u: "untouched w w0" "log w0 = log w"
    by (simp_all add: untouched_request request_log)
  show ?thesis
  proof (cases fault)
    case (Some e)
    with assms rq False have "w1 = emit (EvGet ns name r) w0" "\<forall>obj. r \<noteq> Inr obj"
      by (auto simp: k8s_Get_def)
    with that[of w0] u show ?thesis by simp
  next
    case None
    show ?thesis
    proof (cases "find (hasKey ns name) (objects w0)")
      case n: None
      with assms rq False None have "w1 = emit (EvGet ns name r) w0" "\<forall>obj. r \<noteq> Inr obj"
        by (auto simp: k8s_Get_def)
      with that[of w0] u show ?thesis by simp
    next
      case (Some found)
      with assms rq False None have "w1 = emit (EvGet ns name r) w0" "r = Inr found"
        by (auto simp: k8s_Get_def)
      with that[of w0] u Some False show ?thesis by simp
    qed
  qed
qed

lemma untouched_Get: "k8s_Get ns name w = (r, w1) \<Longrightarrow> untouched w w1"
  by (erule k8s_Get_shape) (simp add: untouched_emit)

lemma k8s_Update_shape:
  assumes "k8s_Update ns obj w = (r, w1)"
  obtains (fail) e w0 where "r = Inl e" "untouched w w0" "log w0 = log w"
      "w1 = emit (EvUpdate ns obj (Some e)) w0"
  | (ok) stored w0 cur where "r = Inr stored" "untouched w w0" "log w0 = log w"
      "GetName obj \<noteq> []" "GetNamespace obj = ns"
      "find (hasKey ns (GetName obj)) (objects w0) = Some cur"
      "resourceVersion obj = resourceVersion cur"
      "SetNestedField obj (JStr (decimal (Suc (revision w0))))
         [''metadata'', ''resourceVersion''] = Inr stored"
      "w1 = emit (EvUpdate ns obj None)
              (w0\<lparr>objects := replaceFirst (hasKey ns (GetName obj)) stored (objects w0),
                   revision := Suc (revision w0)\<rparr>)"
proof (cases "GetName obj = []")
  case True
  with assms fail[of _ w] show ?thesis
    by (auto simp: k8s_Update_def untouched_refl)
next
  case name: False
  obtain fault w0 where rq: "request w = (fault, w0)" by (cases "request w")
  then have u: "untouched w w0" "log w0 = log w"
    by (simp_all add: untouched_request request_log)
  show ?thesis
  proof (cases fault)
    case (Some e)
    with assms rq name fail[of e w0] u show ?thesis
      by (auto simp: k8s_Update_def)
  next
    case nofault: None
    show ?thesis
    proof (cases "find (hasKey ns (GetName obj)) (objects w0)")
      case None
      with assms rq name nofault fail[of _ w0] u show ?thesis
        by (auto simp: k8s_Update_def)
    next
      case (Some cur)
      show ?thesis
      proof (cases "GetNamespace obj = ns \<and> resourceVersion obj = resourceVersion cur")
        case False
        with assms rq name nofault Some fail[of _ w0] u show ?thesis
          by (auto simp: k8s_Update_def split: if_splits)
      next
        case True
        show ?thesis
        proof (cases "SetNestedField obj (JStr (decimal (Suc (revision w0))))
                        [''metadata'', ''resourceVersion'']")
          case (Inl e)
          with assms rq name nofault Some True fail[of e w0] u show ?thesis
            by (auto simp: k8s_Update_def)
        next
          case (Inr stored)
          with assms rq name nofault Some True ok[of stored w0 cur] u show ?thesis
            by (auto simp: k8s_Update_def)
        qed
      qed
    qed
  qed
qed

lemma untouched_Update: "k8s_Update ns obj w = (Inl e, w1) \<Longrightarrow> untouched w w1"
  by (erule k8s_Update_shape) (simp_all add: untouched_emit)

lemma untouched_retryFn:
  assumes "retryFn repo changes w = (Some e, w1)"
  shows "untouched w w1"
proof -
  obtain r wg where g: "k8s_Get (Namespace repo) (Name repo) w = (r, wg)"
    by (cases "k8s_Get (Namespace repo) (Name repo) w")
  then have ug: "untouched w wg" by (rule untouched_Get)
  show ?thesis
  proof (cases r)
    case (Inl getErr)
    with assms g ug show ?thesis by (simp add: retryFn_def)
  next
    case (Inr result)
    show ?thesis
    proof (cases "applyChanges result changes")
      case (Inl e')
      with assms g ug Inr show ?thesis by (simp add: retryFn_def)
    next
      case r': (Inr result')
      obtain u wu where u: "k8s_Update (Namespace repo) result' wg = (u, wu)"
        by (cases "k8s_Update (Namespace repo) result' wg")
      with assms g Inr r' obtain e' where "u = Inl e'" "w1 = wu"
        by (cases u) (auto simp: retryFn_def)
      with u have "untouched wg w1" using untouched_Update by blast
      with ug show ?thesis by (rule untouched_trans)
    qed
  qed
qed

lemma SetNestedField_frame:
  "SetNestedField obj v p = Inr obj' \<Longrightarrow> apart p q \<Longrightarrow>
   NestedFieldNoCopy obj' q = NestedFieldNoCopy obj q"
  by (simp add: SetNestedField_def apart_def set_frame)

lemma SetNestedField_get:
  "SetNestedField obj v p = Inr obj' \<Longrightarrow> NestedFieldNoCopy obj' p = Some v"
  unfolding SetNestedField_def by (rule set_get)

lemma applyChanges_frame:
  "applyChanges obj changes = Inr obj' \<Longrightarrow> \<forall>c \<in> set changes. apart (keys c) q \<Longrightarrow>
   NestedFieldNoCopy obj' q = NestedFieldNoCopy obj q"
proof (induction changes arbitrary: obj)
  case Nil
  then show ?case by simp
next
  case (Cons c changes)
  from Cons.prems(1) obtain mid where
    mid: "SetNestedField obj (JStr (val c)) (keys c) = Inr mid" and
    rest: "applyChanges mid changes = Inr obj'"
    by (auto split: sum.splits)
  from Cons.prems(2) have "apart (keys c) q" "\<forall>c \<in> set changes. apart (keys c) q"
    by simp_all
  with mid rest Cons.IH show ?case
    by (simp add: SetNestedField_frame)
qed

lemma changeset_frame:
  assumes "applyChanges obj (changeset now hash) = Inr obj'"
    and "apart [''metadata'', ''annotations'', ''ernesto.0x42.in/last-sync-time''] q"
    and "apart [''metadata'', ''annotations'', ''ernesto.0x42.in/commit-hash''] q"
  shows "NestedFieldNoCopy obj' q = NestedFieldNoCopy obj q"
  using assms(1) by (rule applyChanges_frame) (simp add: changeset_def assms)

lemma changeset_values:
  assumes "applyChanges obj (changeset now hash) = Inr obj'"
  shows "NestedFieldNoCopy obj' [''metadata'', ''annotations'', ''ernesto.0x42.in/last-sync-time'']
           = Some (JStr (Format_RFC1123 now))"
    and "NestedFieldNoCopy obj' [''metadata'', ''annotations'', ''ernesto.0x42.in/commit-hash'']
           = Some (JStr hash)"
proof -
  from assms obtain mid where
    mid: "SetNestedField obj (JStr (Format_RFC1123 now))
            [''metadata'', ''annotations'', ''ernesto.0x42.in/last-sync-time''] = Inr mid" and
    fin: "SetNestedField mid (JStr hash)
            [''metadata'', ''annotations'', ''ernesto.0x42.in/commit-hash''] = Inr obj'"
    by (auto simp: changeset_def split: sum.splits)
  from fin show "NestedFieldNoCopy obj' [''metadata'', ''annotations'', ''ernesto.0x42.in/commit-hash'']
           = Some (JStr hash)"
    by (rule SetNestedField_get)
  have "apart [''metadata'', ''annotations'', ''ernesto.0x42.in/commit-hash'']
          [''metadata'', ''annotations'', ''ernesto.0x42.in/last-sync-time'']"
    by (simp add: apart_def)
  with fin have "NestedFieldNoCopy obj' [''metadata'', ''annotations'', ''ernesto.0x42.in/last-sync-time'']
     = NestedFieldNoCopy mid [''metadata'', ''annotations'', ''ernesto.0x42.in/last-sync-time'']"
    by (rule SetNestedField_frame)
  also from mid have "\<dots> = Some (JStr (Format_RFC1123 now))"
    by (rule SetNestedField_get)
  finally show "NestedFieldNoCopy obj' [''metadata'', ''annotations'', ''ernesto.0x42.in/last-sync-time'']
           = Some (JStr (Format_RFC1123 now))" .
qed

lemma changeset_identity:
  assumes "applyChanges obj (changeset now hash) = Inr obj'"
  shows "GetName obj' = GetName obj" "GetNamespace obj' = GetNamespace obj"
    "resourceVersion obj' = resourceVersion obj"
proof -
  have "NestedFieldNoCopy obj' [''metadata'', ''name''] = NestedFieldNoCopy obj [''metadata'', ''name'']"
    by (rule changeset_frame[OF assms]) (simp_all add: apart_def)
  then show "GetName obj' = GetName obj"
    by (simp add: GetName_def getNestedString_def)
  have "NestedFieldNoCopy obj' [''metadata'', ''namespace'']
          = NestedFieldNoCopy obj [''metadata'', ''namespace'']"
    by (rule changeset_frame[OF assms]) (simp_all add: apart_def)
  then show "GetNamespace obj' = GetNamespace obj"
    by (simp add: GetNamespace_def getNestedString_def)
  show "resourceVersion obj' = resourceVersion obj"
    unfolding resourceVersion_def
    by (rule changeset_frame[OF assms]) (simp_all add: apart_def)
qed

lemma find_replaceFirst:
  "find P objs = Some cur \<Longrightarrow> P new \<Longrightarrow> find P (replaceFirst P new objs) = Some new"
  by (induction objs) (auto split: if_splits)

lemma assertMap_cases:
  obtains m where "x = Some (JMap m)" "assertMap x = Return m"
  | msg where "\<forall>m. x \<noteq> Some (JMap m)" "assertMap x = Panic msg"
  by (cases x rule: assertMap.cases) auto

lemma assertString_cases:
  obtains s where "x = Some (JStr s)" "assertString x = Return s"
  | msg where "\<forall>s. x \<noteq> Some (JStr s)" "assertString x = Panic msg"
  by (cases x rule: assertString.cases) auto

lemma decodable_fields:
  assumes "decodable repo"
  obtains metadata spec repoUrl accessToken username where
    "assertMap (map_of repo ''metadata'') = Return metadata"
    "assertMap (map_of repo ''spec'') = Return spec"
    "assertString (map_of spec ''repoUrl'') = Return repoUrl"
    "assertString (map_of spec ''accessToken'') = Return accessToken"
    "assertString (map_of spec ''username'') = Return username"
    "getNestedString repo [''spec'', ''repoUrl''] = repoUrl"
    "getNestedString repo [''spec'', ''accessToken''] = accessToken"
    "getNestedString repo [''spec'', ''username''] = username"
  using assms
  by (auto simp: decodable_def getNestedString_def split: option.splits jval.splits
      elim!: isMap.elims isString.elims)

lemma getRepos_loop_decodable:
  assumes "decodable repo"
  shows "\<exists>args. getRepos_loop (repo # items) i rs w =
           getRepos_loop items (Suc i) (rs[i := decoded repo]) (slog_Info ''Found repo'' args w)"
  using assms by (elim decodable_fields) (auto simp: decoded_def)

lemma getRepos_loop_undecodable:
  assumes "\<not> decodable repo"
  shows "\<exists>m. getRepos_loop (repo # items) i rs w = Panic m"
proof (cases "map_of repo ''metadata''" rule: assertMap_cases)
  case 2
  then show ?thesis by simp
next
  case md: (1 metadata)
  show ?thesis
  proof (cases "map_of repo ''spec''" rule: assertMap_cases)
    case 2
    with md show ?thesis by simp
  next
    case sp: (1 spec)
    show ?thesis
    proof (cases "map_of spec ''repoUrl''" rule: assertString_cases)
      case 2
      with md sp show ?thesis by simp
    next
      case url: (1 repoUrl)
      show ?thesis
      proof (cases "map_of spec ''accessToken''" rule: assertString_cases)
        case 2
        with md sp url show ?thesis by simp
      next
        case tok: (1 accessToken)
        show ?thesis
        proof (cases "map_of spec ''username''" rule: assertString_cases)
          case 2
          with md sp url tok show ?thesis by simp
        next
          case (1 username)
          with md sp url tok have "decodable repo"
            by (simp add: decodable_def)
          with assms show ?thesis by simp
        qed
      qed
    qed
  qed
qed

lemma getRepos_loop_Panic:
  "(\<exists>m. getRepos_loop items i rs w = Panic m) \<longleftrightarrow> (\<exists>obj \<in> set items. \<not> decodable obj)"
proof (induction items arbitrary: i rs w)
  case Nil
  show ?case by simp
next
  case (Cons repo items)
  show ?case
  proof (cases "decodable repo")
    case True
    from getRepos_loop_decodable[OF True, of items i rs w] obtain args where
      "getRepos_loop (repo # items) i rs w =
         getRepos_loop items (Suc i) (rs[i := decoded repo]) (slog_Info ''Found repo'' args w)"
      by blast
    with Cons.IH True show ?thesis by simp
  next
    case False
    with getRepos_loop_undecodable[OF False, of items i rs w] show ?thesis by auto
  qed
qed

lemma getRepos_loop_Return:
  "getRepos_loop items i rs w = Return (rs', w') \<Longrightarrow> i + length items \<le> length rs \<Longrightarrow>
   rs' = take i rs @ map decoded items @ drop (i + length items) rs"
proof (induction items arbitrary: i rs w)
  case Nil
  then show ?case by simp
next
  case (Cons repo items)
  have dec: "decodable repo"
  proof (rule ccontr)
    assume "\<not> decodable repo"
    from getRepos_loop_undecodable[OF this, of items i rs w] Cons.prems(1) show False by auto
  qed
  from getRepos_loop_decodable[OF dec, of items i rs w] Cons.prems(1) obtain args where
    rec: "getRepos_loop items (Suc i) (rs[i := decoded repo]) (slog_Info ''Found repo'' args w)
            = Return (rs', w')"
    by auto
  from Cons.prems(2) have i: "i < length rs" by simp
  from Cons.prems(2) have "Suc i + length items \<le> length (rs[i := decoded repo])" by simp
  from Cons.IH[OF rec this]
  have "rs' = take (Suc i) (rs[i := decoded repo]) @ map decoded items @
              drop (Suc i + length items) (rs[i := decoded repo])" .
  with i show ?case
    by (simp add: take_Suc_conv_app_nth)
qed

lemma k8s_List_result:
  "\<exists>w1. k8s_List ''tacos'' w =
     (case snd (env w (calls w)) of Some e \<Rightarrow> Inl e | None \<Rightarrow> Inr (listed w), w1)"
  by (auto simp: k8s_List_def request_def listed_def split: prod.splits option.splits)

lemma getRepos_List_error:
  "snd (env w (calls w)) = Some e \<Longrightarrow> \<exists>w'. getRepos w = Return ((None, Some e), w')"
  using k8s_List_result[of w] by (auto simp: getRepos_def)

lemma getRepos_List_ok:
  assumes "snd (env w (calls w)) = None"
  shows "(\<exists>m. getRepos w = Panic m) \<longleftrightarrow> (\<exists>obj \<in> set (listed w). \<not> decodable obj)"
    and "getRepos w = Return (r, w') \<Longrightarrow> r = (Some (map decoded (listed w)), None)"
proof -
  from k8s_List_result[of w] assms obtain w1 where
    l: "k8s_List ''tacos'' w = (Inr (listed w), w1)" by auto
  let ?loop = "getRepos_loop (listed w) 0 (replicate (length (listed w)) zeroRepository) w1"
  have "(\<exists>m. getRepos w = Panic m) \<longleftrightarrow> (\<exists>m. ?loop = Panic m)"
    by (auto simp: getRepos_def l split: result.splits)
  then show "(\<exists>m. getRepos w = Panic m) \<longleftrightarrow> (\<exists>obj \<in> set (listed w). \<not> decodable obj)"
    by (simp add: getRepos_loop_Panic)
  assume "getRepos w = Return (r, w')"
  then obtain rs where "?loop = Return (rs, w')" "r = (Some rs, None)"
    by (auto simp: getRepos_def l split: result.splits)
  moreover from getRepos_loop_Return[OF this(1)] have "rs = map decoded (listed w)"
    by simp
  ultimately show "r = (Some (map decoded (listed w)), None)" by simp
qed

lemma getRepos_cmd_loop_decodable:
  assumes "decodable repo"
  shows "\<exists>args. getRepos_loop_cmd (repo # items) i rs w =
           getRepos_loop_cmd items (Suc i) (rs[i := decoded_cmd repo]) (slog_Info ''Found repo'' args w)"
  using assms by (elim decodable_fields) (auto simp: decoded_cmd_def)

lemma getRepos_cmd_loop_undecodable:
  assumes "\<not> decodable repo"
  shows "\<exists>m. getRepos_loop_cmd (repo # items) i rs w = Panic m"
proof (cases "map_of repo ''metadata''" rule: assertMap_cases)
  case 2
  then show ?thesis by simp
next
  case md: (1 metadata)
  show ?thesis
  proof (cases "map_of repo ''spec''" rule: assertMap_cases)
    case 2
    with md show ?thesis by simp
  next
    case sp: (1 spec)
    show ?thesis
    proof (cases "map_of spec ''repoUrl''" rule: assertString_cases)
      case 2
      with md sp show ?thesis by simp
    next
      case url: (1 repoUrl)
      show ?thesis
      proof (cases "map_of spec ''accessToken''" rule: assertString_cases)
        case 2
        with md sp url show ?thesis by simp
      next
        case tok: (1 accessToken)
        show ?thesis
        proof (cases "map_of spec ''username''" rule: assertString_cases)
          case 2
          with md sp url tok show ?thesis by simp
        next
          case (1 username)
          with md sp url tok have "decodable repo"
            by (auto simp: decodable_def)
          with assms show ?thesis by simp
        qed
      qed
    qed
  qed
qed

lemma getRepos_cmd_loop_Panic:
  "(\<exists>m. getRepos_loop_cmd items i rs w = Panic m) \<longleftrightarrow> (\<exists>obj \<in> set items. \<not> decodable obj)"
proof (induction items arbitrary: i rs w)
  case Nil
  show ?case by simp
next
  case (Cons repo items)
  show ?case
  proof (cases "decodable repo")
    case True
    from getRepos_cmd_loop_decodable[OF True, of items i rs w] obtain args where
      "getRepos_loop_cmd (repo # items) i rs w =
         getRepos_loop_cmd items (Suc i) (rs[i := decoded_cmd repo]) (slog_Info ''Found repo'' args w)"
      by blast
    with Cons.IH True show ?thesis by simp
  next
    case False
    with getRepos_cmd_loop_undecodable[OF False, of items i rs w] show ?thesis by auto
  qed
qed

lemma getRepos_cmd_loop_Return:
  "getRepos_loop_cmd items i rs w = Return (rs', w') \<Longrightarrow> i + length items \<le> length rs \<Longrightarrow>
   rs' = take i rs @ map decoded_cmd items @ drop (i + length items) rs"
proof (induction items arbitrary: i rs w)
  case Nil
  then show ?case by simp
next
  case (Cons repo items)
  have dec: "decodable repo"
  proof (rule ccontr)
    assume "\<not> decodable repo"
    from getRepos_cmd_loop_undecodable[OF this, of items i rs w] Cons.prems(1) show False by auto
  qed
  from getRepos_cmd_loop_decodable[OF dec, of items i rs w] Cons.prems(1) obtain args where
    rec: "getRepos_loop_cmd items (Suc i) (rs[i := decoded_cmd repo]) (slog_Info ''Found repo'' args w)
            = Return (rs', w')"
    by auto
  from Cons.prems(2) have i: "i < length rs" by simp
  from Cons.prems(2) have "Suc i + length items \<le> length (rs[i := decoded_cmd repo])" by simp
  from Cons.IH[OF rec this]
  have "rs' = take (Suc i) (rs[i := decoded_cmd repo]) @ map decoded_cmd items @
              drop (Suc i + length items) (rs[i := decoded_cmd repo])" .
  with i show ?case
    by (simp add: take_Suc_conv_app_nth)
qed

lemma getRepos_cmd_List_error:
  "snd (env w (calls w)) = Some e \<Longrightarrow> \<exists>w'. getRepos_cmd w = Return ((None, Some e), w')"
  using k8s_List_result[of w] by (auto simp: getRepos_cmd_def)

lemma getRepos_cmd_List_ok:
  assumes "snd (env w (calls w)) = None"
  shows "(\<exists>m. getRepos_cmd w = Panic m) \<longleftrightarrow> (\<exists>obj \<in> set (listed w). \<not> decodable obj)"
    and "getRepos_cmd w = Return (r, w') \<Longrightarrow> r = (Some (map decoded_cmd (listed w)), None)"
proof -
  from k8s_List_result[of w] assms obtain w1 where
    l: "k8s_List ''tacos'' w = (Inr (listed w), w1)" by auto
  let ?loop = "getRepos_loop_cmd (listed w) 0 (replicate (length (listed w)) zeroRepository_cmd) w1"
  have "(\<exists>m. getRepos_cmd w = Panic m) \<longleftrightarrow> (\<exists>m. ?loop = Panic m)"
    by (auto simp: getRepos_cmd_def l split: result.splits)
  then show "(\<exists>m. getRepos_cmd w = Panic m) \<longleftrightarrow> (\<exists>obj \<in> set (listed w). \<not> decodable obj)"
    by (simp add: getRepos_cmd_loop_Panic)
  assume "getRepos_cmd w = Return (r, w')"
  then obtain rs where "?loop = Return (rs, w')" "r = (Some rs, None)"
    by (auto simp: getRepos_cmd_def l split: result.splits)
  moreover from getRepos_cmd_loop_Return[OF this(1)] have "rs = map decoded_cmd (listed w)"
    by simp
  ultimately show "r = (Some (map decoded_cmd (listed w)), None)" by simp
qed

lemma retryFn_success:
  assumes "retryFn repo changes w = (None, w')"
  obtains result result' stored cur and wa wb :: world where
    "Name repo \<noteq> []"
    "find (hasKey (Namespace repo) (Name repo)) (objects wa) = Some result"
    "applyChanges result changes = Inr result'"
    "log wb = log w @ [EvGet (Namespace repo) (Name repo) (Inr result)]"
    "GetName result' \<noteq> []" "GetNamespace result' = Namespace repo"
    "find (hasKey (Namespace repo) (GetName result')) (objects wb) = Some cur"
    "resourceVersion result' = resourceVersion cur"
    "SetNestedField result' (JStr (decimal (Suc (revision wb))))
       [''metadata'', ''resourceVersion''] = Inr stored"
    "w' = emit (EvUpdate (Namespace repo) result' None)
            (wb\<lparr>objects := replaceFirst (hasKey (Namespace repo) (GetName result')) stored (objects wb),
                 revision := Suc (revision wb)\<rparr>)"
proof -
  obtain r wg where g: "k8s_Get (Namespace repo) (Name repo) w = (r, wg)"
    by (cases "k8s_Get (Namespace repo) (Name repo) w")
  from assms g obtain result where r: "r = Inr result"
    by (cases r) (auto simp: retryFn_def)
  from assms g r obtain result' where ch: "applyChanges result changes = Inr result'"
    by (cases "applyChanges result changes") (auto simp: retryFn_def)
  obtain u wu where u: "k8s_Update (Namespace repo) result' wg = (u, wu)"
    by (cases "k8s_Update (Namespace repo) result' wg")
  from assms g r ch u obtain stored where st: "u = Inr stored" and w': "w' = wu"
    by (cases u) (auto simp: retryFn_def)
  from g obtain wa where
    wa: "log wa = log w" "wg = emit (EvGet (Namespace repo) (Name repo) r) wa"
      "Name repo \<noteq> [] \<and> find (hasKey (Namespace repo) (Name repo)) (objects wa) = Some result"
    using r by (elim k8s_Get_shape[where obj = result]) blast
  from wa have lg: "log wg = log w @ [EvGet (Namespace repo) (Name repo) (Inr result)]"
    by (simp add: emit_def r)
  from u show ?thesis
  proof (cases rule: k8s_Update_shape)
    case (fail e w0)
    with st show ?thesis by simp
  next
    case (ok stored' w0 cur)
    with st have s: "stored' = stored" by simp
    from ok lg have "log w0 = log w @ [EvGet (Namespace repo) (Name repo) (Inr result)]"
      by simp
    with that[of wa result result' w0 cur stored] wa ch ok s w' show ?thesis
      by simp
  qed
qed

lemma find_holds: "find P xs = Some x \<Longrightarrow> P x"
  by (induction xs) (auto split: if_splits)

lemma quiet_Get:
  assumes "name \<noteq> []" "find (hasKey ns name) (objects w) = Some obj"
  shows "fst (k8s_Get ns name (w\<lparr>env := quiet\<rparr>)) = Inr obj"
  using assms by (simp add: k8s_Get_def request_def quiet_def)

lemma getLatestCommit_world:
  "getLatestCommit repo w = (r, w1) \<Longrightarrow> w1 = w\<lparr>log := log w @ [EvClone (URL repo)]\<rparr>"
  by (auto simp: getLatestCommit_def git_Clone_def emit_def split: sum.splits)

lemma retryFn_log:
  assumes "retryFn repo changes w = (res, w1)"
  shows "(\<exists>r. log w1 = log w @ [EvGet (Namespace repo) (Name repo) r]) \<or>
         (\<exists>result result' u.
            log w1 = log w @ [EvGet (Namespace repo) (Name repo) (Inr result),
                              EvUpdate (Namespace repo) result' u] \<and>
            applyChanges result changes = Inr result')"
proof -
  obtain r wg where g: "k8s_Get (Namespace repo) (Name repo) w = (r, wg)"
    by (cases "k8s_Get (Namespace repo) (Name repo) w")
  then have lg: "log wg = log w @ [EvGet (Namespace repo) (Name repo) r]"
    by (elim k8s_Get_shape) (simp add: emit_def)
  show ?thesis
  proof (cases "\<exists>result result'. r = Inr result \<and> applyChanges result changes = Inr result'")
    case False
    with assms g have "w1 = wg" by (auto simp: retryFn_def split: sum.splits)
    with lg show ?thesis by blast
  next
    case True
    then obtain result result' where r: "r = Inr result" "applyChanges result changes = Inr result'"
      by blast
    obtain u wu where u: "k8s_Update (Namespace repo) result' wg = (u, wu)"
      by (cases "k8s_Update (Namespace repo) result' wg")
    with assms g r have w1: "w1 = wu" by (auto simp: retryFn_def split: sum.splits)
    from u have "\<exists>x. log wu = log wg @ [EvUpdate (Namespace repo) result' x]"
      by (elim k8s_Update_shape) (simp_all add: emit_def)
    with lg r w1 show ?thesis by auto
  qed
qed

lemma fresh_append:
  "fresh changes p (a @ b) \<longleftrightarrow>
     fresh changes p a \<and> fresh changes (if a = [] then p else Some (last a)) b"
proof (induction a arbitrary: p)
  case Nil
  show ?case by simp
next
  case (Cons e a)
  show ?case by (cases e) (simp_all add: Cons.IH)
qed

text \<open>What one attempt, a pause or a whole retry loop may add to the log.\<close>

lemma retryFn_events:
  assumes "retryFn repo changes w = (res, w1)"
  shows "\<exists>evs. log w1 = log w @ evs \<and> (\<forall>p. fresh changes p evs) \<and>
           (\<forall>url. EvClone url \<notin> set evs) \<and> EvNow \<notin> set evs \<and> EvSleep \<notin> set evs \<and>
           length (filter isGet evs) = 1"
  using retryFn_log[OF assms] by auto

lemma applyChangeset_events:
  assumes "applyChangeset repo changes w = (res, w')"
  shows "\<exists>evs. log w' = log w @ evs \<and> (\<forall>p. fresh changes p evs) \<and>
           (\<forall>url. EvClone url \<notin> set evs) \<and> EvNow \<notin> set evs"
proof -
  let ?R = "\<lambda>a b. \<exists>evs. log b = log a @ evs \<and> (\<forall>p. fresh changes p evs) \<and>
           (\<forall>url. EvClone url \<notin> set evs) \<and> EvNow \<notin> set evs"
  have step: "?R a b" if "retryFn repo changes a = (r, b)" for a r b
    using retryFn_events[OF that] by blast
  have sleep: "?R a (time_Sleep a)" for a
    by (simp add: time_Sleep_def emit_def)
  have refl: "?R a a" for a by simp
  have trans: "?R a c" if "?R a b" "?R b c" for a b c
  proof -
    from that obtain e1 e2 where
      e1: "log b = log a @ e1" "\<forall>p. fresh changes p e1"
        "\<forall>url. EvClone url \<notin> set e1" "EvNow \<notin> set e1" and
      e2: "log c = log b @ e2" "\<forall>p. fresh changes p e2"
        "\<forall>url. EvClone url \<notin> set e2" "EvNow \<notin> set e2"
      by blast
    have "log c = log a @ (e1 @ e2)" using e1 e2 by simp
    moreover have "\<forall>p. fresh changes p (e1 @ e2)"
      using e1 e2 by (simp add: fresh_append)
    ultimately show ?thesis using e1 e2 by (intro exI[of _ "e1 @ e2"]) auto
  qed
  from assms have "OnError 5 IsConflict (retryFn repo changes) w = (res, w')"
    by (simp add: applyChangeset_def RetryOnConflict_def DefaultRetry_def)
  then show ?thesis
    by (rule OnError_rel[where R = ?R, rotated -1]) (fact step sleep refl trans)+
qed

lemma attemptStart_sleeps:
  "\<exists>evs. log (attemptStart k (retryFn repo changes) w) = log w @ evs \<and>
         count_list evs EvSleep = k \<and> length (filter isGet evs) = k"
proof (induction k)
  case 0
  show ?case by simp
next
  case (Suc k)
  then obtain evs where evs: "log (attemptStart k (retryFn repo changes) w) = log w @ evs"
    "count_list evs EvSleep = k" "length (filter isGet evs) = k" by blast
  obtain r w1 where f: "retryFn repo changes (attemptStart k (retryFn repo changes) w) = (r, w1)"
    by (cases "retryFn repo changes (attemptStart k (retryFn repo changes) w)")
  from retryFn_events[OF f] obtain e1 where
    e1: "log w1 = log (attemptStart k (retryFn repo changes) w) @ e1" "EvSleep \<notin> set e1"
      "length (filter isGet e1) = 1"
    by blast
  have "log (attemptStart (Suc k) (retryFn repo changes) w) = log w @ (evs @ e1 @ [EvSleep])"
    using f e1 evs by (simp add: time_Sleep_def emit_def)
  moreover have "count_list (evs @ e1 @ [EvSleep]) EvSleep = Suc k"
    "length (filter isGet (evs @ e1 @ [EvSleep])) = Suc k"
    using evs e1 by simp_all
  ultimately show ?case by blast
qed

lemma othersOnly_quiet: "\<forall>n. fst (e n) = id \<Longrightarrow> othersOnly e c n objs = objs"
  by (induction n arbitrary: c objs) auto

lemma applyChangeset_untouched:
  assumes "applyChangeset repo changes w = (Some e, w')"
  shows "untouched w w'"
proof -
  from assms have "OnError 5 IsConflict (retryFn repo changes) w = (Some e, w')"
    by (simp add: applyChangeset_def RetryOnConflict_def DefaultRetry_def)
  then show ?thesis
    by (rule OnError_Some_rel[where R = untouched, rotated -1])
      (fact untouched_retryFn untouched_Sleep untouched_trans)+
qed

lemma applyChangeset_ends:
  assumes "k < 5"
    and "\<forall>j<k. \<exists>e. fst (retryFn repo changes (attemptStart j (retryFn repo changes) w)) = Some e \<and>
                    IsConflict e"
    and "retryFn repo changes (attemptStart k (retryFn repo changes) w) = (res, w')"
    and "case res of None \<Rightarrow> True | Some e \<Rightarrow> \<not> IsConflict e \<or> k = 4"
  shows "applyChangeset repo changes w = (res, w')"
proof -
  from assms(4) have "case res of None \<Rightarrow> True | Some e \<Rightarrow> \<not> IsConflict e \<or> Suc k = 5"
    by (auto split: option.splits)
  with assms(1-3) have "OnError 5 IsConflict (retryFn repo changes) w = (res, w')"
    by (rule OnError_ends)
  then show ?thesis
    by (simp add: applyChangeset_def RetryOnConflict_def DefaultRetry_def)
qed

lemma getRepos_p1_result:
  "\<exists>w'. getRepos_p1 w = Return ((None, snd (env w (calls w))), w')"
proof -
  from k8s_List_result[of w] obtain w1 where
    l: "k8s_List ''tacos'' w =
          (case snd (env w (calls w)) of Some e \<Rightarrow> Inl e | None \<Rightarrow> Inr (listed w), w1)"
    by blast
  show ?thesis
  proof (cases "snd (env w (calls w))")
    case (Some e)
    with l show ?thesis by (simp add: getRepos_p1_def)
  next
    case None
    have "\<forall>obj \<in> set (listed w). \<exists>md. map_of obj ''metadata'' = Some (JMap md)"
      using namespace_metadata by (fastforce simp: listed_def)
    from getRepos_loop_p1_total[OF this] obtain rs w' where
      "getRepos_loop_p1 (listed w) 0 (replicate (length (listed w)) zeroRepository_p1) w1
         = Return (rs, w')"
      by blast
    with l None show ?thesis by (simp add: getRepos_p1_def)
  qed
qed

lemma main_p1_never_returns: "main_p1 fuel sched w = None"
proof -
  from getRepos_p1_result obtain e w' where
    "getRepos_p1 (slog_Info ''Ernesto initialized'' [] w) = Return ((None, e), w')"
    by blast
  then show ?thesis
    by (simp add: main_p1_def Loop_p1_never_returns)
qed

lemma Loop_cmd_returns:
  "sched j = CtxDone \<Longrightarrow> i \<le> j \<Longrightarrow> \<exists>r. Loop_cmd (Suc (j - i)) sched i w = Some r"
proof (induction "j - i" arbitrary: i w)
  case 0
  then have "i = j" by simp
  with "0.prems" show ?case by simp
next
  case (Suc n)
  then have n: "n = j - Suc i" and le: "Suc i \<le> j" by arith+
  have fuel: "j - i = Suc (j - Suc i)" using le by arith
  have rec: "\<exists>r. Loop_cmd (Suc (j - Suc i)) sched (Suc i) w' = Some r" for w'
    using Suc.hyps(1)[OF n Suc.prems(1) le] .
  show ?case
  proof (cases "sched i")
    case CtxDone
    then show ?thesis by simp
  next
    case TickerC
    show ?thesis
    proof (cases "getRepos_cmd w")
      case (Panic m)
      with TickerC show ?thesis by simp
    next
      case (Return x)
      obtain repos e w1 where x: "x = ((repos, e), w1)" by (cases x) auto
      show ?thesis
      proof (cases e)
        case (Some e')
        with TickerC Return x rec show ?thesis
          unfolding fuel by (subst Loop_cmd.simps) simp
      next
        case None
        show ?thesis
        proof (cases "startAll_cmd (case repos of None \<Rightarrow> [] | Some rs \<Rightarrow> rs) w1")
          case p: (Panic m)
          with TickerC Return x None show ?thesis by simp
        next
          case r: (Return w2)
          with TickerC Return x None rec show ?thesis
            unfolding fuel by (subst Loop_cmd.simps) simp
        qed
      qed
    qed
  qed
qed

text \<open>
  C9. Once the cancellation signal has fired, the reconciler loop takes no further
  tick and returns. The loop of the third variant has no exit: its \<^verbatim>\<open>Done\<close> case
  calls \<^verbatim>\<open>cancel\<close> and goes round again, so whatever the schedule and however long
  it is run, neither the loop nor \<open>main\<close> returns.
\<close>

theorem C9_third_variant_never_returns:
  "Loop_p1 fuel sched i w = None \<and> main_p1 fuel sched w = None"
  by (simp add: Loop_p1_never_returns main_p1_never_returns)

lemma processRepo_failed_resolution:
  "getLatestCommit repo w = (Inl e, w1) \<Longrightarrow>
   processRepo repo w =
     Return (slog_Error ''Failed to get latest commit''
               [(''error'', LErr e), (''repository'', LStr (URL repo))] w1)"
  by (simp add: processRepo_def)

text \<open>
  C3. Every invocation of \<open>processRepo\<close> signals the wait group, also on the early
  return after a failed resolution. Here the credentials of the repository are refused:
  the worker returns with the counter still at one, in both variants, and a \<open>main\<close>
  whose only repository is this one waits for ever.
\<close>

theorem C3_failed_resolution_skips_Done:
  "(\<exists>w'. processRepo example_denied example_world = Return w' \<and> wg w' = 1) \<and>
   (\<exists>w'. processRepo_cmd example_denied_cmd example_world = Return w' \<and> wg w' = 1) \<and>
   main (example_world\<lparr>objects := [example_expired], wg := 0\<rparr>) = None"
proof -
  have a: "\<exists>w'. processRepo example_denied example_world = Return w' \<and> wg w' = 1"
    by (simp add: processRepo_def getLatestCommit_def git_Clone_def example_denied_def
        example_repo_def example_world_def example_remote_def emit_def slog_Error_def)
  have b: "\<exists>w'. processRepo_cmd example_denied_cmd example_world = Return w' \<and> wg w' = 1"
    by (simp add: processRepo_cmd_def getLatestCommit_cmd_def git_Clone_def
        example_denied_cmd_def example_world_def example_remote_def emit_def slog_Error_def)
  have c: "main (example_world\<lparr>objects := [example_expired], wg := 0\<rparr>) = None"
    by (simp add: main_def getRepos_def k8s_List_def request_def example_world_def quiet_def
        example_expired_def GetNamespace_def GetName_def getNestedString_def emit_def
        slog_Info_def slog_Error_def spew_Dump_def zeroRepository_def wg_Add_def wg_Wait_def
        processRepo_def getLatestCommit_def git_Clone_def example_remote_def)
  from a b c show ?thesis by blast
qed

text \<open>
  C7 as stated. A list result in which a record lacks an expected string field makes
  the list operation return a decoding error. Here the second record has no
  \<^verbatim>\<open>spec.repoUrl\<close>: the type assertion panics and nothing is returned.
\<close>

theorem C7_counterexample:
  "getRepos (example_world\<lparr>objects := [example_record, example_malformed]\<rparr>) =
     Panic ''interface conversion: interface {} is nil, not string''"
  by (simp add: getRepos_def k8s_List_def request_def example_world_def quiet_def
      example_record_def example_malformed_def GetNamespace_def GetName_def
      getNestedString_def emit_def slog_Info_def zeroRepository_def)

text \<open>
  C7, amended. When the list request succeeds, \<open>getRepos\<close> ends the whole pass with a
  runtime panic exactly when some listed record has no map \<^verbatim>\<open>spec\<close> or lacks a
  string \<^verbatim>\<open>repoUrl\<close>, \<^verbatim>\<open>accessToken\<close> or \<^verbatim>\<open>username\<close> in it; it returns no
  error then and skips no record. The name is not asserted: a record without one is
  decoded with the empty name. The same holds in cmd/main.go.
\<close>

theorem C7_malformed_record_panics:
  assumes "snd (env w (calls w)) = None"
  shows "((\<exists>m. getRepos w = Panic m) \<longleftrightarrow> (\<exists>obj \<in> set (listed w). \<not> decodable obj)) \<and>
         (\<forall>r e w'. getRepos w \<noteq> Return ((r, Some e), w')) \<and>
         ((\<exists>m. getRepos_cmd w = Panic m) \<longleftrightarrow> (\<exists>obj \<in> set (listed w). \<not> decodable obj)) \<and>
         (\<forall>r e w'. getRepos_cmd w \<noteq> Return ((r, Some e), w'))"
  using getRepos_List_ok[OF assms] getRepos_cmd_List_ok[OF assms] by fastforce

theorem C7_malformed_record_panics_witness:
  "snd (env (example_world\<lparr>objects := [example_record, example_malformed]\<rparr>)
          (calls (example_world\<lparr>objects := [example_record, example_malformed]\<rparr>))) = None \<and>
   (\<exists>obj \<in> set (listed (example_world\<lparr>objects := [example_record, example_malformed]\<rparr>)).
      \<not> decodable obj) \<and>
   (\<exists>m. getRepos (example_world\<lparr>objects := [example_record, example_malformed]\<rparr>) = Panic m) \<and>
   (\<exists>m. getRepos_cmd (example_world\<lparr>objects := [example_record, example_malformed]\<rparr>) = Panic m)"
proof -
  let ?w = "example_world\<lparr>objects := [example_record, example_malformed]\<rparr>"
  have h: "snd (env ?w (calls ?w)) = None"
    by (simp add: example_world_def quiet_def)
  have bad: "\<exists>obj \<in> set (listed ?w). \<not> decodable obj"
    by (simp add: listed_def example_world_def quiet_def example_record_def
        example_malformed_def GetNamespace_def getNestedString_def decodable_def)
  from C7_malformed_record_panics[OF h] bad h show ?thesis by blast
qed

text \<open>
  C8 as stated. A failed resolution returns one "resolution failed" error that carries
  the URL of the repository. Here the remote refuses the credentials: what comes back
  is the error of the clone itself, and the URL does not occur in it.
\<close>

theorem C8_counterexample:
  "fst (getLatestCommit example_denied example_world) =
     Inl (GitError ''authentication required'') \<and>
   \<not> sublist (URL example_denied) (errorString (GitError ''authentication required''))"
  by (simp add: getLatestCommit_def git_Clone_def example_denied_def example_repo_def
      example_world_def example_remote_def sublist_Cons_right)

text \<open>
  C8, amended. When \<open>getLatestCommit\<close> fails, it returns the error of the clone or of
  the lookup of the head as it is, after exactly one clone and nothing else; it is
  \<open>processRepo\<close> that adds the URL, in the record it logs before it returns.
\<close>

theorem C8_resolution_error_passed_through:
  assumes "getLatestCommit repo w = (Inl e, w1)"
  shows "(remote w (URL repo) (Username repo) (AccessToken repo) = Inl e \<or>
          (\<exists>r. remote w (URL repo) (Username repo) (AccessToken repo) = Inr r \<and> Head r = Inl e)) \<and>
         w1 = w\<lparr>log := log w @ [EvClone (URL repo)]\<rparr> \<and>
         processRepo repo w =
           Return (w\<lparr>log := log w @
             [EvClone (URL repo),
              EvLog LevelError ''Failed to get latest commit''
                [(''error'', LErr e), (''repository'', LStr (URL repo))]]\<rparr>)"
proof -
  from assms have r: "remote w (URL repo) (Username repo) (AccessToken repo) = Inl e \<or>
      (\<exists>r. remote w (URL repo) (Username repo) (AccessToken repo) = Inr r \<and> Head r = Inl e)"
    and w1: "w1 = w\<lparr>log := log w @ [EvClone (URL repo)]\<rparr>"
    by (auto simp: getLatestCommit_def git_Clone_def emit_def split: sum.splits)
  have "processRepo repo w =
      Return (slog_Error ''Failed to get latest commit''
                [(''error'', LErr e), (''repository'', LStr (URL repo))] w1)"
    using assms by (simp add: processRepo_def)
  with r w1 show ?thesis
    by (simp add: slog_Error_def emit_def)
qed

theorem C8_resolution_error_passed_through_witness:
  "getLatestCommit example_denied example_world =
     (Inl (GitError ''authentication required''),
      example_world\<lparr>log := [EvClone ''https://example/a.git'']\<rparr>) \<and>
   processRepo example_denied example_world =
     Return (example_world\<lparr>log :=
       [EvClone ''https://example/a.git'',
        EvLog LevelError ''Failed to get latest commit''
          [(''error'', LErr (GitError ''authentication required'')),
           (''repository'', LStr ''https://example/a.git'')]]\<rparr>)"
proof -
  have h: "getLatestCommit example_denied example_world =
     (Inl (GitError ''authentication required''),
      example_world\<lparr>log := [EvClone ''https://example/a.git'']\<rparr>)"
    by (simp add: getLatestCommit_def git_Clone_def example_denied_def example_repo_def
        example_world_def example_remote_def emit_def)
  from C8_resolution_error_passed_through[OF h] h show ?thesis
    by (simp add: example_denied_def example_repo_def example_world_def)
qed

text \<open>
  C10. In the third variant \<open>getRepos\<close> returns a nil slice whatever the store holds,
  with a nil error when the list request succeeds (and the error of the request
  otherwise): the entries it has built are dropped. In the two other variants a
  \<open>getRepos\<close> that returns after a successful list request returns one descriptor for
  each listed record, in order.
\<close>

theorem C10_third_variant_returns_nil:
  "(\<exists>w'. getRepos_p1 w = Return ((None, snd (env w (calls w))), w')) \<and>
   (\<forall>r w'. snd (env w (calls w)) = None \<and> getRepos w = Return (r, w') \<longrightarrow>
      r = (Some (map decoded (listed w)), None)) \<and>
   (\<forall>r w'. snd (env w (calls w)) = None \<and> getRepos_cmd w = Return (r, w') \<longrightarrow>
      r = (Some (map decoded_cmd (listed w)), None))"
  using getRepos_p1_result[of w] getRepos_List_ok(2)[of w] getRepos_cmd_List_ok(2)[of w]
  by blast

theorem C10_third_variant_returns_nil_witness:
  "snd (env example_world (calls example_world)) = None \<and>
   (\<exists>w'. getRepos_p1 example_world = Return ((None, None), w')) \<and>
   (\<exists>w'. getRepos example_world = Return ((Some [example_repo], None), w')) \<and>
   (\<exists>w'. getRepos_cmd example_world =
      Return ((Some [\<lparr>Name_cmd = ''repo-a'', Namespace_cmd = ''tacos'',
                      URL_cmd = ''https://example/a.git'', AccessToken_cmd = ''t'',
                      Username_cmd = ''u''\<rparr>], None), w'))"
proof -
  have h: "snd (env example_world (calls example_world)) = None"
    by (simp add: example_world_def quiet_def)
  have l: "listed example_world = [example_record]"
    by (simp add: listed_def example_world_def quiet_def example_record_def
        GetNamespace_def getNestedString_def)
  have d: "decoded example_record = example_repo"
    by (simp add: decoded_def example_repo_def example_record_def GetName_def
        GetNamespace_def getNestedString_def)
  have dc: "decoded_cmd example_record =
      \<lparr>Name_cmd = ''repo-a'', Namespace_cmd = ''tacos'', URL_cmd = ''https://example/a.git'',
       AccessToken_cmd = ''t'', Username_cmd = ''u''\<rparr>"
    by (simp add: decoded_cmd_def example_record_def GetName_def
        GetNamespace_def getNestedString_def)
  have g: "\<exists>r w'. getRepos example_world = Return (r, w')"
    by (simp add: getRepos_def k8s_List_def request_def example_world_def quiet_def
        example_record_def GetNamespace_def GetName_def getNestedString_def emit_def
        slog_Info_def zeroRepository_def)
  have gc: "\<exists>r w'. getRepos_cmd example_world = Return (r, w')"
    by (simp add: getRepos_cmd_def k8s_List_def request_def example_world_def quiet_def
        example_record_def GetNamespace_def GetName_def getNestedString_def emit_def
        slog_Info_def zeroRepository_cmd_def)
  from C10_third_variant_returns_nil[of example_world] h g gc show ?thesis
    by (auto simp: l d dc)
qed

lemma changeset_creates_annotations:
  assumes "map_of obj ''metadata'' = None \<or>
           (\<exists>md. map_of obj ''metadata'' = Some (JMap md) \<and> map_of md ''annotations'' = None)"
  shows "\<exists>obj'. applyChanges obj (changeset now hash) = Inr obj' \<and>
           NestedFieldNoCopy obj' [''metadata'', ''annotations''] =
             Some (JMap [(''ernesto.0x42.in/last-sync-time'', JStr (Format_RFC1123 now)),
                         (''ernesto.0x42.in/commit-hash'', JStr hash)])"
  using assms
proof
  assume "map_of obj ''metadata'' = None"
  then show ?thesis
    by (simp add: changeset_def SetNestedField_def update_conv')
next
  assume "\<exists>md. map_of obj ''metadata'' = Some (JMap md) \<and> map_of md ''annotations'' = None"
  then obtain md where "map_of obj ''metadata'' = Some (JMap md)" "map_of md ''annotations'' = None"
    by blast
  then show ?thesis
    by (simp add: changeset_def SetNestedField_def update_conv')
qed

lemma walkable_succeeds:
  assumes "walkable obj"
  shows "\<exists>obj'. applyChanges obj (changeset now hash) = Inr obj'"
proof (cases "map_of obj ''metadata''")
  case None
  then show ?thesis
    by (simp add: changeset_def SetNestedField_def update_conv')
next
  case (Some m)
  with assms obtain metadata where m: "map_of obj ''metadata'' = Some (JMap metadata)"
    by (cases m) (simp_all add: walkable_def)
  show ?thesis
  proof (cases "map_of metadata ''annotations''")
    case None
    with m show ?thesis
      by (simp add: changeset_def SetNestedField_def update_conv')
  next
    case a: (Some a)
    with assms m obtain annotations where "map_of metadata ''annotations'' = Some (JMap annotations)"
      by (cases a) (simp_all add: walkable_def)
    with m show ?thesis
      by (simp add: changeset_def SetNestedField_def update_conv')
  qed
qed

lemma unwalkable_fails:
  assumes "\<not> walkable obj"
  shows "\<exists>path. applyChanges obj (changeset now hash) = Inl (FieldError path)"
proof (cases "map_of obj ''metadata''")
  case None
  with assms show ?thesis by (simp add: walkable_def)
next
  case (Some m)
  show ?thesis
  proof (cases "\<exists>metadata. m = JMap metadata")
    case False
    with Some show ?thesis
      by (cases m) (simp_all add: changeset_def SetNestedField_def)
  next
    case True
    then obtain metadata where m: "m = JMap metadata" by blast
    with assms Some obtain a where a: "map_of metadata ''annotations'' = Some a"
      "\<forall>annotations. a \<noteq> JMap annotations"
      by (cases "map_of metadata ''annotations''") (auto simp: walkable_def split: jval.splits)
    with Some m show ?thesis
      by (cases a) (simp_all add: changeset_def SetNestedField_def)
  qed
qed

text \<open>
  C6. On every record whose \<^verbatim>\<open>metadata\<close> and \<^verbatim>\<open>metadata.annotations\<close> are each
  absent or a map, whatever the annotations it already carries, applying the changeset
  succeeds; the result holds the two values at the two listed paths and, at every path
  that lies apart from both, at every level of the record, the value it held before.
  On a record without \<^verbatim>\<open>metadata.annotations\<close> (or without \<^verbatim>\<open>metadata\<close>) the map is
  created and holds the two keys. On any other record a path runs through a value that
  is not a map and the application fails with the error of that path.
\<close>

theorem C6_changeset_frame:
  "(walkable obj \<longrightarrow>
      (\<exists>obj'. applyChanges obj (changeset now hash) = Inr obj' \<and>
         NestedFieldNoCopy obj' [''metadata'', ''annotations'', ''ernesto.0x42.in/last-sync-time'']
           = Some (JStr (Format_RFC1123 now)) \<and>
         NestedFieldNoCopy obj' [''metadata'', ''annotations'', ''ernesto.0x42.in/commit-hash'']
           = Some (JStr hash) \<and>
         (\<forall>q. apart [''metadata'', ''annotations'', ''ernesto.0x42.in/last-sync-time''] q \<and>
              apart [''metadata'', ''annotations'', ''ernesto.0x42.in/commit-hash''] q \<longrightarrow>
              NestedFieldNoCopy obj' q = NestedFieldNoCopy obj q))) \<and>
   (map_of obj ''metadata'' = None \<or>
    (\<exists>md. map_of obj ''metadata'' = Some (JMap md) \<and> map_of md ''annotations'' = None) \<longrightarrow>
      walkable obj \<and>
      (\<exists>created. applyChanges obj (changeset now hash) = Inr created \<and>
         NestedFieldNoCopy created [''metadata'', ''annotations''] =
           Some (JMap [(''ernesto.0x42.in/last-sync-time'', JStr (Format_RFC1123 now)),
                       (''ernesto.0x42.in/commit-hash'', JStr hash)]))) \<and>
   (\<not> walkable obj \<longrightarrow>
      (\<exists>path. applyChanges obj (changeset now hash) = Inl (FieldError path)))"
proof -
  have a: "\<exists>obj'. applyChanges obj (changeset now hash) = Inr obj' \<and>
         NestedFieldNoCopy obj' [''metadata'', ''annotations'', ''ernesto.0x42.in/last-sync-time'']
           = Some (JStr (Format_RFC1123 now)) \<and>
         NestedFieldNoCopy obj' [''metadata'', ''annotations'', ''ernesto.0x42.in/commit-hash'']
           = Some (JStr hash) \<and>
         (\<forall>q. apart [''metadata'', ''annotations'', ''ernesto.0x42.in/last-sync-time''] q \<and>
              apart [''metadata'', ''annotations'', ''ernesto.0x42.in/commit-hash''] q \<longrightarrow>
              NestedFieldNoCopy obj' q = NestedFieldNoCopy obj q)"
    if "walkable obj"
  proof -
    from walkable_succeeds[OF that] obtain obj' where
      ok: "applyChanges obj (changeset now hash) = Inr obj'" by blast
    from changeset_values[OF ok] changeset_frame[OF ok] ok show ?thesis by blast
  qed
  have b: "walkable obj"
    if "map_of obj ''metadata'' = None \<or>
       (\<exists>md. map_of obj ''metadata'' = Some (JMap md) \<and> map_of md ''annotations'' = None)"
    using that by (auto simp: walkable_def)
  from a b changeset_creates_annotations[of obj now hash] unwalkable_fails[of obj now hash]
  show ?thesis by blast
qed

theorem C6_changeset_frame_witness:
  "walkable example_annotated \<and>
   (\<exists>obj'. applyChanges example_annotated (changeset example_time ''abc123'') = Inr obj' \<and>
      NestedFieldNoCopy obj' [''metadata'', ''annotations'', ''ernesto.0x42.in/commit-hash'']
        = Some (JStr ''abc123'') \<and>
      NestedFieldNoCopy obj' [''metadata'', ''annotations'', ''ernesto.0x42.in/last-sync-time'']
        = Some (JStr ''Tue, 05 Mar 2024 09:30:07 UTC'') \<and>
      NestedFieldNoCopy obj' [''metadata'', ''annotations'', ''owner''] = Some (JStr ''ops'') \<and>
      NestedFieldNoCopy obj' [''metadata'', ''name''] = Some (JStr ''repo-a'') \<and>
      NestedFieldNoCopy obj' [''spec'', ''repoUrl''] = Some (JStr ''https://example/a.git'')) \<and>
   (\<exists>md. map_of example_record ''metadata'' = Some (JMap md) \<and> map_of md ''annotations'' = None) \<and>
   (\<exists>created. applyChanges example_record (changeset example_time ''abc123'') = Inr created \<and>
      NestedFieldNoCopy created [''metadata'', ''annotations''] =
        Some (JMap [(''ernesto.0x42.in/last-sync-time'', JStr ''Tue, 05 Mar 2024 09:30:07 UTC''),
                    (''ernesto.0x42.in/commit-hash'', JStr ''abc123'')])) \<and>
   \<not> walkable example_unwalkable \<and>
   (\<exists>path. applyChanges example_unwalkable (changeset example_time ''abc123'')
      = Inl (FieldError path))"
proof -
  have f: "Format_RFC1123 example_time = ''Tue, 05 Mar 2024 09:30:07 UTC''"
    by (simp add: Format_RFC1123_def example_time_def appendInt_def digit_def)
  have w: "walkable example_annotated"
    by (simp add: walkable_def example_annotated_def)
  from w C6_changeset_frame[of example_annotated example_time "''abc123''"]
  obtain obj' where o: "applyChanges example_annotated (changeset example_time ''abc123'') = Inr obj'"
    "NestedFieldNoCopy obj' [''metadata'', ''annotations'', ''ernesto.0x42.in/last-sync-time'']
       = Some (JStr (Format_RFC1123 example_time))"
    "NestedFieldNoCopy obj' [''metadata'', ''annotations'', ''ernesto.0x42.in/commit-hash'']
       = Some (JStr ''abc123'')"
    and fr: "\<And>q. apart [''metadata'', ''annotations'', ''ernesto.0x42.in/last-sync-time''] q \<Longrightarrow>
         apart [''metadata'', ''annotations'', ''ernesto.0x42.in/commit-hash''] q \<Longrightarrow>
         NestedFieldNoCopy obj' q = NestedFieldNoCopy example_annotated q"
    by blast
  have k1: "NestedFieldNoCopy obj' [''metadata'', ''annotations'', ''owner''] = Some (JStr ''ops'')"
    by (subst fr) (simp_all add: apart_def example_annotated_def)
  have k2: "NestedFieldNoCopy obj' [''metadata'', ''name''] = Some (JStr ''repo-a'')"
    by (subst fr) (simp_all add: apart_def example_annotated_def)
  have k3: "NestedFieldNoCopy obj' [''spec'', ''repoUrl''] = Some (JStr ''https://example/a.git'')"
    by (subst fr) (simp_all add: apart_def example_annotated_def)
  have h: "\<exists>md. map_of example_record ''metadata'' = Some (JMap md) \<and> map_of md ''annotations'' = None"
    by (simp add: example_record_def)
  from h C6_changeset_frame[of example_record example_time "''abc123''"]
  have c: "\<exists>created. applyChanges example_record (changeset example_time ''abc123'') = Inr created \<and>
      NestedFieldNoCopy created [''metadata'', ''annotations''] =
        Some (JMap [(''ernesto.0x42.in/last-sync-time'', JStr (Format_RFC1123 example_time)),
                    (''ernesto.0x42.in/commit-hash'', JStr ''abc123'')])"
    by blast
  have u: "\<not> walkable example_unwalkable"
    by (simp add: walkable_def example_unwalkable_def)
  from u C6_changeset_frame[of example_unwalkable example_time "''abc123''"]
  have e: "\<exists>path. applyChanges example_unwalkable (changeset example_time ''abc123'')
      = Inl (FieldError path)"
    by blast
  from w o k1 k2 k3 h c u e show ?thesis
    unfolding f by blast
qed

lemma stored_after_success:
  assumes "retryFn repo (changeset now hash) w0 = (None, w3)"
  obtains result result' stored where
    "Name repo \<noteq> []"
    "log w3 = log w0 @ [EvGet (Namespace repo) (Name repo) (Inr result),
                       EvUpdate (Namespace repo) result' None]"
    "applyChanges result (changeset now hash) = Inr result'"
    "SetNestedField result' (JStr (decimal (revision w3))) [''metadata'', ''resourceVersion'']
       = Inr stored"
    "find (hasKey (Namespace repo) (Name repo)) (objects w3) = Some stored"
proof -
  from assms obtain result result' stored cur and wa wb :: world where
    name: "Name repo \<noteq> []" and
    found: "find (hasKey (Namespace repo) (Name repo)) (objects wa) = Some result" and
    ch: "applyChanges result (changeset now hash) = Inr result'" and
    lg: "log wb = log w0 @ [EvGet (Namespace repo) (Name repo) (Inr result)]" and
    ns: "GetNamespace result' = Namespace repo" and
    cur: "find (hasKey (Namespace repo) (GetName result')) (objects wb) = Some cur" and
    st: "SetNestedField result' (JStr (decimal (Suc (revision wb))))
           [''metadata'', ''resourceVersion''] = Inr stored" and
    w3: "w3 = emit (EvUpdate (Namespace repo) result' None)
            (wb\<lparr>objects := replaceFirst (hasKey (Namespace repo) (GetName result')) stored (objects wb),
                 revision := Suc (revision wb)\<rparr>)"
    by (rule retryFn_success)
  from found have "hasKey (Namespace repo) (Name repo) result" by (rule find_holds)
  then have key: "GetName result = Name repo" "GetNamespace result = Namespace repo"
    by (simp_all add: hasKey_def)
  from changeset_identity[OF ch] key have key': "GetName result' = Name repo"
    by simp
  have "NestedFieldNoCopy stored [''metadata'', ''name'']
          = NestedFieldNoCopy result' [''metadata'', ''name'']"
    using st by (rule SetNestedField_frame) (simp add: apart_def)
  moreover have "NestedFieldNoCopy stored [''metadata'', ''namespace'']
          = NestedFieldNoCopy result' [''metadata'', ''namespace'']"
    using st by (rule SetNestedField_frame) (simp add: apart_def)
  ultimately have "hasKey (Namespace repo) (Name repo) stored"
    using key' ns by (simp add: hasKey_def GetName_def GetNamespace_def getNestedString_def)
  with cur key' have "find (hasKey (Namespace repo) (Name repo)) (objects w3) = Some stored"
    by (simp add: w3 emit_def find_replaceFirst)
  moreover have "log w3 = log w0 @ [EvGet (Namespace repo) (Name repo) (Inr result),
                       EvUpdate (Namespace repo) result' None]"
    by (simp add: w3 emit_def lg)
  moreover have "SetNestedField result' (JStr (decimal (revision w3)))
      [''metadata'', ''resourceVersion''] = Inr stored"
    using st by (simp add: w3 emit_def)
  ultimately show ?thesis using that name ch by blast
qed

lemma applyChangeset_success:
  assumes "applyChangeset repo changes w = (None, w')"
  obtains w0 evs where "retryFn repo changes w0 = (None, w')" "log w0 = log w @ evs"
proof -
  let ?R = "\<lambda>a b. \<exists>evs. log b = log a @ evs"
  have step: "?R a b" if "retryFn repo changes a = (Some e, b)" for a e b
  proof -
    obtain r wg where g: "k8s_Get (Namespace repo) (Name repo) a = (r, wg)"
      by (cases "k8s_Get (Namespace repo) (Name repo) a")
    then have lg: "?R a wg" by (elim k8s_Get_shape) (simp add: emit_def)
    show ?thesis
    proof (cases "\<exists>result result'. r = Inr result \<and> applyChanges result changes = Inr result'")
      case False
      with that g have "b = wg" by (auto simp: retryFn_def split: sum.splits)
      with lg show ?thesis by simp
    next
      case True
      then obtain result result' where r: "r = Inr result" "applyChanges result changes = Inr result'"
        by blast
      obtain u wu where u: "k8s_Update (Namespace repo) result' wg = (u, wu)"
        by (cases "k8s_Update (Namespace repo) result' wg")
      with that g r have "b = wu" by (auto simp: retryFn_def split: sum.splits)
      moreover from u have "?R wg wu" by (elim k8s_Update_shape) (simp_all add: emit_def)
      ultimately show ?thesis using lg by auto
    qed
  qed
  have run: "OnError n IsConflict (retryFn repo changes) a = (None, b) \<Longrightarrow> 0 < n \<Longrightarrow>
      \<exists>w0 evs. retryFn repo changes w0 = (None, b) \<and> log w0 = log a @ evs" for n a b
  proof (induction n arbitrary: a)
    case 0
    then show ?case by simp
  next
    case (Suc n)
    obtain res1 w1 where f: "retryFn repo changes a = (res1, w1)"
      by (cases "retryFn repo changes a")
    show ?case
    proof (cases res1)
      case None
      with Suc.prems f have "retryFn repo changes a = (None, b)" by (simp add: OnError_Suc)
      then show ?thesis by (intro exI[of _ a] exI[of _ "[]"]) simp
    next
      case (Some e1)
      with Suc.prems f have "OnError n IsConflict (retryFn repo changes) (time_Sleep w1) = (None, b)"
        "0 < n"
        by (auto simp: OnError_Suc split: if_splits)
      from Suc.IH[OF this] obtain w0 evs where
        w0: "retryFn repo changes w0 = (None, b)" "log w0 = log (time_Sleep w1) @ evs"
        by blast
      from step f Some obtain evs1 where "log w1 = log a @ evs1" by blast
      with w0 show ?thesis by (auto simp: time_Sleep_def emit_def)
    qed
  qed
  from assms have "OnError 5 IsConflict (retryFn repo changes) w = (None, w')"
    by (simp add: applyChangeset_def RetryOnConflict_def DefaultRetry_def)
  from run[OF this] that show ?thesis by auto
qed

text \<open>
  C1. When the resolver of a worker succeeds with commit hash \<open>hash\<close> and the update
  succeeds, a get of the record that follows (nobody else writing in between) returns
  a record whose annotation \<^verbatim>\<open>ernesto.0x42.in/commit-hash\<close> is \<open>hash\<close> and whose
  annotation \<^verbatim>\<open>ernesto.0x42.in/last-sync-time\<close> is the clock of the worker in the
  layout RFC 1123. The record submitted is the one read by the last attempt with these
  two paths set; outside them and the version that the store assigns, the stored record
  is the record read.
\<close>

theorem C1_annotations_written:
  assumes "getLatestCommit repo w = (Inr hash, w1)"
    and "time_Now (slog_Info ''Latest commit hash retrieved from repository''
           [(''repository'', LStr (Name repo)), (''hash'', LStr hash)] w1) = (now, w2)"
    and "applyChangeset repo (changeset now hash) w2 = (None, w3)"
  shows "processRepo repo w = wg_Done w3 \<and> now = wallclock w \<and>
    (\<exists>pre result result' stored.
       log w3 = pre @ [EvGet (Namespace repo) (Name repo) (Inr result),
                       EvUpdate (Namespace repo) result' None] \<and>
       applyChanges result (changeset now hash) = Inr result' \<and>
       fst (k8s_Get (Namespace repo) (Name repo) (w3\<lparr>env := quiet\<rparr>)) = Inr stored \<and>
       NestedFieldNoCopy stored [''metadata'', ''annotations'', ''ernesto.0x42.in/commit-hash'']
         = Some (JStr hash) \<and>
       NestedFieldNoCopy stored [''metadata'', ''annotations'', ''ernesto.0x42.in/last-sync-time'']
         = Some (JStr (Format_RFC1123 (wallclock w))) \<and>
       (\<forall>q. apart [''metadata'', ''annotations'', ''ernesto.0x42.in/last-sync-time''] q \<and>
            apart [''metadata'', ''annotations'', ''ernesto.0x42.in/commit-hash''] q \<and>
            apart [''metadata'', ''resourceVersion''] q \<longrightarrow>
            NestedFieldNoCopy stored q = NestedFieldNoCopy result q))"
proof -
  have p: "processRepo repo w = wg_Done w3"
    using assms by (simp add: processRepo_def)
  from assms(1) have "w1 = w\<lparr>log := log w @ [EvClone (URL repo)]\<rparr>"
    by (rule getLatestCommit_world)
  with assms(2) have n: "now = wallclock w"
    by (auto simp: time_Now_def slog_Info_def emit_def)
  from assms(3) obtain w0 evs where
    w0: "retryFn repo (changeset now hash) w0 = (None, w3)" "log w0 = log w2 @ evs"
    by (rule applyChangeset_success)
  from w0(1) obtain result result' stored where
    name: "Name repo \<noteq> []" and
    lg: "log w3 = log w0 @ [EvGet (Namespace repo) (Name repo) (Inr result),
                       EvUpdate (Namespace repo) result' None]" and
    ch: "applyChanges result (changeset now hash) = Inr result'" and
    st: "SetNestedField result' (JStr (decimal (revision w3))) [''metadata'', ''resourceVersion'']
       = Inr stored" and
    found: "find (hasKey (Namespace repo) (Name repo)) (objects w3) = Some stored"
    by (rule stored_after_success)
  have get: "fst (k8s_Get (Namespace repo) (Name repo) (w3\<lparr>env := quiet\<rparr>)) = Inr stored"
    using name found by (rule quiet_Get)
  have fr: "NestedFieldNoCopy stored q = NestedFieldNoCopy result' q"
    if "apart [''metadata'', ''resourceVersion''] q" for q
    using st that by (rule SetNestedField_frame)
  have h: "NestedFieldNoCopy stored [''metadata'', ''annotations'', ''ernesto.0x42.in/commit-hash'']
         = Some (JStr hash)"
    using changeset_values(2)[OF ch] by (subst fr) (simp_all add: apart_def)
  have t: "NestedFieldNoCopy stored [''metadata'', ''annotations'', ''ernesto.0x42.in/last-sync-time'']
         = Some (JStr (Format_RFC1123 (wallclock w)))"
    using changeset_values(1)[OF ch] n by (subst fr) (simp_all add: apart_def)
  have rest: "NestedFieldNoCopy stored q = NestedFieldNoCopy result q"
    if "apart [''metadata'', ''annotations'', ''ernesto.0x42.in/last-sync-time''] q"
      "apart [''metadata'', ''annotations'', ''ernesto.0x42.in/commit-hash''] q"
      "apart [''metadata'', ''resourceVersion''] q" for q
    using fr[OF that(3)] changeset_frame[OF ch that(1,2)] by simp
  from p n lg ch get h t rest show ?thesis by blast
qed

lemmas example_defs =
  example_world_def example_started_def example_resolved_def example_repo_def
  example_record_def example_remote_def example_time_def example_rewritten_def
  example_rival_def example_rival_once_def example_flaky_def quiet_def
  example_contended_def example_contended_once_def example_interrupted_def
  example_annotated_def example_unwalkable_def example_blocked_def example_busy_def

lemmas run_defs =
  retryFn_def k8s_Get_def k8s_Update_def request_def emit_def time_Sleep_def time_Now_def
  slog_Info_def slog_Warn_def slog_Error_def hasKey_def GetName_def GetNamespace_def
  getNestedString_def resourceVersion_def SetNestedField_def changeset_def
  Format_RFC1123_def appendInt_def digit_def getLatestCommit_def git_Clone_def

theorem C1_annotations_written_witness:
  "getLatestCommit example_repo example_world = (Inr ''abc123'', example_resolved) \<and>
   time_Now (slog_Info ''Latest commit hash retrieved from repository''
      [(''repository'', LStr (Name example_repo)), (''hash'', LStr ''abc123'')] example_resolved)
     = (example_time, example_started) \<and>
   fst (applyChangeset example_repo (changeset example_time ''abc123'') example_started) = None \<and>
   (\<exists>stored.
      fst (k8s_Get ''tacos'' ''repo-a''
             ((snd (applyChangeset example_repo (changeset example_time ''abc123'') example_started))
                \<lparr>env := quiet\<rparr>)) = Inr stored \<and>
      NestedFieldNoCopy stored [''metadata'', ''annotations'', ''ernesto.0x42.in/commit-hash'']
        = Some (JStr ''abc123'') \<and>
      NestedFieldNoCopy stored [''metadata'', ''annotations'', ''ernesto.0x42.in/last-sync-time'']
        = Some (JStr ''Tue, 05 Mar 2024 09:30:07 UTC''))"
proof -
  have h1: "getLatestCommit example_repo example_world = (Inr ''abc123'', example_resolved)"
    by (simp add: example_defs run_defs)
  have h2: "time_Now (slog_Info ''Latest commit hash retrieved from repository''
      [(''repository'', LStr (Name example_repo)), (''hash'', LStr ''abc123'')] example_resolved)
     = (example_time, example_started)"
    by (simp add: example_defs run_defs)
  have "fst (retryFn example_repo (changeset example_time ''abc123'') example_started) = None"
    by (simp add: example_defs run_defs)
  then have "retryFn example_repo (changeset example_time ''abc123'')
      (attemptStart 0 (retryFn example_repo (changeset example_time ''abc123'')) example_started) =
      (None, snd (retryFn example_repo (changeset example_time ''abc123'') example_started))"
    by (simp add: prod_eq_iff)
  then have "applyChangeset example_repo (changeset example_time ''abc123'') example_started =
      (None, snd (retryFn example_repo (changeset example_time ''abc123'') example_started))"
    by (rule applyChangeset_ends[of 0, rotated 2]) simp_all
  then have f: "fst (applyChangeset example_repo (changeset example_time ''abc123'') example_started) = None"
    by simp
  then have h3: "applyChangeset example_repo (changeset example_time ''abc123'') example_started =
      (None, snd (applyChangeset example_repo (changeset example_time ''abc123'') example_started))"
    by (simp add: prod_eq_iff)
  have t: "Format_RFC1123 (wallclock example_world) = ''Tue, 05 Mar 2024 09:30:07 UTC''"
    by (simp add: example_defs run_defs)
  have r: "Namespace example_repo = ''tacos''" "Name example_repo = ''repo-a''"
    by (simp_all add: example_repo_def)
  from C1_annotations_written[OF h1 h2 h3] h1 h2 f show ?thesis
    unfolding t r by blast
qed

lemma applyChanges_error:
  "applyChanges obj changes = Inl e \<Longrightarrow> \<not> IsConflict e"
proof (induction changes arbitrary: obj)
  case Nil
  then show ?case by simp
next
  case (Cons c changes)
  have field: "setNestedFieldNoCopy m v p = Inl e' \<Longrightarrow> \<exists>path. e' = FieldError path" for m v p e'
    by (induction m v p arbitrary: e' rule: setNestedFieldNoCopy.induct)
      (auto split: option.splits jval.splits sum.splits err.splits)
  from Cons show ?case
    by (auto simp: SetNestedField_def split: sum.splits dest: field)
qed

text \<open>
  C2. When every attempt of the conflict-safe update ends in a conflict, the updater
  reads the record again and retries, with a pause between two attempts, for the five
  attempts of the retry budget (five reads, four pauses); it then returns the conflict
  of the fifth attempt.
  The store holds nothing that the updater has written: it is what the other clients
  alone have made of it, and the store of before when they were idle.
\<close>

theorem C2_persistent_conflict:
  assumes "\<forall>j<Steps DefaultRetry. \<exists>e.
     fst (retryFn repo changes (attemptStart j (retryFn repo changes) w)) = Some e \<and> IsConflict e"
  shows "Steps DefaultRetry = 5 \<and>
    applyChangeset repo changes w =
      retryFn repo changes (attemptStart 4 (retryFn repo changes) w) \<and>
    (\<exists>e w'. applyChangeset repo changes w = (Some e, w') \<and> IsConflict e \<and> untouched w w' \<and>
       ((\<forall>n. fst (env w n) = id) \<longrightarrow> objects w' = objects w) \<and>
       (\<exists>evs. log w' = log w @ evs \<and> count_list evs EvSleep = 4 \<and>
          length (filter isGet evs) = 5))"
proof -
  let ?fn = "retryFn repo changes"
  have steps: "Steps DefaultRetry = 5" by (simp add: DefaultRetry_def)
  with assms have all: "\<forall>j<5. \<exists>e. fst (?fn (attemptStart j ?fn w)) = Some e \<and> IsConflict e"
    by simp
  then have "\<exists>e. fst (?fn (attemptStart 4 ?fn w)) = Some e \<and> IsConflict e"
    by (rule allE[of _ 4]) simp
  then obtain e where e: "fst (?fn (attemptStart 4 ?fn w)) = Some e" "IsConflict e"
    by blast
  obtain w' where w': "?fn (attemptStart 4 ?fn w) = (Some e, w')"
    using e(1) by (cases "?fn (attemptStart 4 ?fn w)") simp
  from all have before: "\<forall>j<4. \<exists>e. fst (?fn (attemptStart j ?fn w)) = Some e \<and> IsConflict e"
    by simp
  have run: "applyChangeset repo changes w = (Some e, w')"
    by (rule applyChangeset_ends[OF _ before w']) simp_all
  then have u: "untouched w w'" by (rule applyChangeset_untouched)
  then have idle: "objects w' = objects w" if "\<forall>n. fst (env w n) = id"
    using that by (simp add: untouched_def othersOnly_quiet)
  from attemptStart_sleeps[of 4 repo changes w] obtain evs where
    evs: "log (attemptStart 4 ?fn w) = log w @ evs" "count_list evs EvSleep = 4"
      "length (filter isGet evs) = 4"
    by blast
  from retryFn_events[OF w'] obtain last where
    "log w' = log (attemptStart 4 ?fn w) @ last" "EvSleep \<notin> set last"
    "length (filter isGet last) = 1"
    by blast
  with evs have "log w' = log w @ (evs @ last)" "count_list (evs @ last) EvSleep = 4"
    "length (filter isGet (evs @ last)) = 5"
    by simp_all
  then have sl: "\<exists>evs. log w' = log w @ evs \<and> count_list evs EvSleep = 4 \<and>
      length (filter isGet evs) = 5"
    by blast
  from steps run w' e(2) u idle sl show ?thesis by auto
qed

theorem C2_persistent_conflict_witness:
  "fst (retryFn example_repo (changeset example_time ''abc123'')
          (attemptStart 0 (retryFn example_repo (changeset example_time ''abc123''))
             example_contended)) = Some (Conflict ''repo-a'') \<and>
   fst (retryFn example_repo (changeset example_time ''abc123'')
          (attemptStart 1 (retryFn example_repo (changeset example_time ''abc123''))
             example_contended)) = Some (Conflict ''repo-a'') \<and>
   fst (retryFn example_repo (changeset example_time ''abc123'')
          (attemptStart 2 (retryFn example_repo (changeset example_time ''abc123''))
             example_contended)) = Some (Conflict ''repo-a'') \<and>
   fst (retryFn example_repo (changeset example_time ''abc123'')
          (attemptStart 3 (retryFn example_repo (changeset example_time ''abc123''))
             example_contended)) = Some (Conflict ''repo-a'') \<and>
   fst (retryFn example_repo (changeset example_time ''abc123'')
          (attemptStart 4 (retryFn example_repo (changeset example_time ''abc123''))
             example_contended)) = Some (Conflict ''repo-a'') \<and>
   IsConflict (Conflict ''repo-a'') \<and>
   fst (applyChangeset example_repo (changeset example_time ''abc123'') example_contended)
     = Some (Conflict ''repo-a'') \<and>
   objects (snd (applyChangeset example_repo (changeset example_time ''abc123'') example_contended))
     = [example_rewritten 9]"
proof -
  let ?fn = "retryFn example_repo (changeset example_time ''abc123'')"
  have a0: "fst (?fn (attemptStart 0 ?fn example_contended)) = Some (Conflict ''repo-a'')"
    by (simp add: example_defs run_defs)
  have a1: "fst (?fn (attemptStart (Suc 0) ?fn example_contended)) = Some (Conflict ''repo-a'')"
    by (simp add: example_defs run_defs)
  have a2: "fst (?fn (attemptStart (Suc (Suc 0)) ?fn example_contended))
      = Some (Conflict ''repo-a'')"
    by (simp add: example_defs run_defs)
  have a3: "fst (?fn (attemptStart (Suc (Suc (Suc 0))) ?fn example_contended))
      = Some (Conflict ''repo-a'')"
    by (simp add: example_defs run_defs)
  have a4: "fst (?fn (attemptStart (Suc (Suc (Suc (Suc 0)))) ?fn example_contended))
      = Some (Conflict ''repo-a'')"
    by (simp add: example_defs run_defs)
  have o4: "objects (snd (?fn (attemptStart (Suc (Suc (Suc (Suc 0)))) ?fn example_contended)))
      = [example_rewritten 9]"
    by (simp add: example_defs run_defs)
  have four: "(4::nat) = Suc (Suc (Suc (Suc 0)))" by simp
  have h: "\<forall>j<Steps DefaultRetry. \<exists>e.
      fst (?fn (attemptStart j ?fn example_contended)) = Some e \<and> IsConflict e"
    using a0 a1 a2 a3 a4
    by (simp add: DefaultRetry_def eval_nat_numeral less_Suc_eq del: attemptStart.simps)
  from C2_persistent_conflict[OF h]
  have "applyChangeset example_repo (changeset example_time ''abc123'') example_contended =
      ?fn (attemptStart 4 ?fn example_contended)"
    by blast
  with a0 a1 a2 a3 a4 o4 show ?thesis
    by (simp add: eval_nat_numeral del: attemptStart.simps)
qed

text \<open>
  C4 as stated. Any failure other than a write conflict ends the retry loop at once,
  and a failed read returns the read error. Here the store answers every read with a
  conflict: no write is ever attempted (an attempt makes one request), yet the loop
  pauses and reads again until the five attempts are used up.
\<close>

theorem C4_counterexample:
  "fst (k8s_Get (Namespace example_repo) (Name example_repo) example_busy)
     = Inl (Conflict ''busy'') \<and>
   fst (retryFn example_repo (changeset example_time ''abc123'') example_busy)
     = Some (Conflict ''busy'') \<and>
   calls (snd (retryFn example_repo (changeset example_time ''abc123'') example_busy)) = 1 \<and>
   fst (applyChangeset example_repo (changeset example_time ''abc123'') example_busy)
     = Some (Conflict ''busy'') \<and>
   calls (snd (applyChangeset example_repo (changeset example_time ''abc123'') example_busy)) = 5 \<and>
   count_list (log (snd (applyChangeset example_repo (changeset example_time ''abc123'')
                          example_busy))) EvSleep = 4"
proof -
  let ?fn = "retryFn example_repo (changeset example_time ''abc123'')"
  have g: "fst (k8s_Get (Namespace example_repo) (Name example_repo) example_busy)
     = Inl (Conflict ''busy'')"
    by (simp add: example_defs run_defs)
  have f0: "fst (?fn example_busy) = Some (Conflict ''busy'')"
    by (simp add: example_defs run_defs)
  then have a0: "fst (?fn (attemptStart 0 ?fn example_busy)) = Some (Conflict ''busy'')"
    by simp
  have c0: "calls (snd (?fn example_busy)) = 1"
    by (simp add: example_defs run_defs)
  have a1: "fst (?fn (attemptStart (Suc 0) ?fn example_busy)) = Some (Conflict ''busy'')"
    by (simp add: example_defs run_defs)
  have a2: "fst (?fn (attemptStart (Suc (Suc 0)) ?fn example_busy)) = Some (Conflict ''busy'')"
    by (simp add: example_defs run_defs)
  have a3: "fst (?fn (attemptStart (Suc (Suc (Suc 0))) ?fn example_busy))
      = Some (Conflict ''busy'')"
    by (simp add: example_defs run_defs)
  have a4: "fst (?fn (attemptStart (Suc (Suc (Suc (Suc 0)))) ?fn example_busy))
      = Some (Conflict ''busy'')"
    by (simp add: example_defs run_defs)
  have c4: "calls (snd (?fn (attemptStart (Suc (Suc (Suc (Suc 0)))) ?fn example_busy))) = 5"
    "count_list (log (snd (?fn (attemptStart (Suc (Suc (Suc (Suc 0)))) ?fn example_busy))))
       EvSleep = 4"
    by (simp_all add: example_defs run_defs)
  have four: "(4::nat) = Suc (Suc (Suc (Suc 0)))" by simp
  have before: "\<forall>j<4. \<exists>e. fst (?fn (attemptStart j ?fn example_busy)) = Some e \<and> IsConflict e"
    using a0 a1 a2 a3
    by (simp add: eval_nat_numeral less_Suc_eq del: attemptStart.simps)
  from a4 have last: "?fn (attemptStart 4 ?fn example_busy) =
      (Some (Conflict ''busy''), snd (?fn (attemptStart 4 ?fn example_busy)))"
    unfolding four by (simp add: prod_eq_iff del: attemptStart.simps)
  have "applyChangeset example_repo (changeset example_time ''abc123'') example_busy =
      (Some (Conflict ''busy''), snd (?fn (attemptStart 4 ?fn example_busy)))"
    by (rule applyChangeset_ends[OF _ before last]) simp_all
  with g f0 c0 c4 show ?thesis
    unfolding four by (simp del: attemptStart.simps)
qed

text \<open>
  C4, amended. Within one run of the conflict-safe update, a failure whose error is
  not a conflict for \<^verbatim>\<open>errors.IsConflict\<close> ends the retry loop at once, whatever the
  number of conflicts before it: the error is returned and the world is the one that
  the failing attempt has left, with no pause and no request after it. In the attempt,
  a failed read returns the read error without an update; a path that cannot be
  applied returns the error of the path, which is never a conflict, without an update,
  and this is what happens whenever the record read holds a value that is not a map
  at \<^verbatim>\<open>metadata\<close> or \<^verbatim>\<open>metadata.annotations\<close>; a failed update returns its error.
\<close>

theorem C4_other_failures_end_the_loop:
  assumes "k < Steps DefaultRetry"
    and "\<forall>j<k. \<exists>e. fst (retryFn repo changes (attemptStart j (retryFn repo changes) w)) = Some e \<and>
                   IsConflict e"
    and "retryFn repo changes (attemptStart k (retryFn repo changes) w) = (Some e, w')"
    and "\<not> IsConflict e"
  shows "applyChangeset repo changes w = (Some e, w') \<and>
    (\<forall>wk getErr w1. k8s_Get (Namespace repo) (Name repo) wk = (Inl getErr, w1) \<longrightarrow>
       retryFn repo changes wk = (Some getErr, w1)) \<and>
    (\<forall>wk result w1 e'.
       k8s_Get (Namespace repo) (Name repo) wk = (Inr result, w1) \<and>
       applyChanges result changes = Inl e' \<longrightarrow>
       retryFn repo changes wk = (Some e', w1) \<and> \<not> IsConflict e') \<and>
    (\<forall>wk result w1 now hash.
       k8s_Get (Namespace repo) (Name repo) wk = (Inr result, w1) \<and> \<not> walkable result \<longrightarrow>
       (\<exists>path. retryFn repo (changeset now hash) wk = (Some (FieldError path), w1))) \<and>
    (\<forall>wk result w1 result' updateErr w2.
       k8s_Get (Namespace repo) (Name repo) wk = (Inr result, w1) \<and>
       applyChanges result changes = Inr result' \<and>
       k8s_Update (Namespace repo) result' w1 = (Inl updateErr, w2) \<longrightarrow>
       retryFn repo changes wk = (Some updateErr, w2))"
proof -
  from assms(1) have k: "k < 5" by (simp add: DefaultRetry_def)
  have "applyChangeset repo changes w = (Some e, w')"
    by (rule applyChangeset_ends[OF k assms(2,3)]) (simp add: assms(4))
  moreover have "retryFn repo changes wk = (Some getErr, w1)"
    if "k8s_Get (Namespace repo) (Name repo) wk = (Inl getErr, w1)" for wk getErr w1
    using that by (simp add: retryFn_def)
  moreover have "retryFn repo changes wk = (Some e', w1) \<and> \<not> IsConflict e'"
    if "k8s_Get (Namespace repo) (Name repo) wk = (Inr result, w1)"
      "applyChanges result changes = Inl e'" for wk result w1 e'
    using that applyChanges_error[OF that(2)] by (simp add: retryFn_def)
  moreover have "\<exists>path. retryFn repo (changeset now hash) wk = (Some (FieldError path), w1)"
    if "k8s_Get (Namespace repo) (Name repo) wk = (Inr result, w1)" "\<not> walkable result"
    for wk result w1 now hash
    using that(1) unwalkable_fails[OF that(2), of now hash] by (auto simp: retryFn_def)
  moreover have "retryFn repo changes wk = (Some updateErr, w2)"
    if "k8s_Get (Namespace repo) (Name repo) wk = (Inr result, w1)"
      "applyChanges result changes = Inr result'"
      "k8s_Update (Namespace repo) result' w1 = (Inl updateErr, w2)"
    for wk result w1 result' updateErr w2
    using that by (simp add: retryFn_def)
  ultimately show ?thesis by blast
qed

theorem C4_other_failures_end_the_loop_witness:
  "1 < Steps DefaultRetry \<and>
   fst (retryFn example_repo (changeset example_time ''abc123'')
          (attemptStart 0 (retryFn example_repo (changeset example_time ''abc123''))
             example_interrupted)) = Some (Conflict ''repo-a'') \<and>
   IsConflict (Conflict ''repo-a'') \<and>
   fst (retryFn example_repo (changeset example_time ''abc123'')
          (attemptStart 1 (retryFn example_repo (changeset example_time ''abc123''))
             example_interrupted)) = Some (ApiError ''connection refused'') \<and>
   \<not> IsConflict (ApiError ''connection refused'') \<and>
   applyChangeset example_repo (changeset example_time ''abc123'') example_interrupted =
     retryFn example_repo (changeset example_time ''abc123'')
       (attemptStart 1 (retryFn example_repo (changeset example_time ''abc123''))
          example_interrupted) \<and>
   calls (snd (applyChangeset example_repo (changeset example_time ''abc123'')
                 example_interrupted)) = 3 \<and>
   0 < Steps DefaultRetry \<and>
   fst (k8s_Get (Namespace example_repo) (Name example_repo) example_blocked)
     = Inr example_unwalkable \<and>
   \<not> walkable example_unwalkable \<and>
   \<not> IsConflict (FieldError [''metadata'', ''annotations'']) \<and>
   fst (applyChangeset example_repo (changeset example_time ''abc123'') example_blocked)
     = Some (FieldError [''metadata'', ''annotations'']) \<and>
   calls (snd (applyChangeset example_repo (changeset example_time ''abc123'')
                 example_blocked)) = 1 \<and>
   objects (snd (applyChangeset example_repo (changeset example_time ''abc123'')
                   example_blocked)) = [example_unwalkable]"
proof -
  let ?fn = "retryFn example_repo (changeset example_time ''abc123'')"
  have h1: "1 < Steps DefaultRetry" by (simp add: DefaultRetry_def)
  have a0: "fst (?fn (attemptStart 0 ?fn example_interrupted)) = Some (Conflict ''repo-a'')"
    by (simp add: example_defs run_defs)
  then have h2: "\<forall>j<1. \<exists>e. fst (?fn (attemptStart j ?fn example_interrupted)) = Some e \<and>
      IsConflict e"
    by (simp del: attemptStart.simps)
  have a1: "fst (?fn (attemptStart (Suc 0) ?fn example_interrupted))
      = Some (ApiError ''connection refused'')"
    by (simp add: example_defs run_defs)
  have c1: "calls (snd (?fn (attemptStart (Suc 0) ?fn example_interrupted))) = 3"
    by (simp add: example_defs run_defs)
  from a1 have h3: "?fn (attemptStart 1 ?fn example_interrupted) =
      (Some (ApiError ''connection refused''), snd (?fn (attemptStart 1 ?fn example_interrupted)))"
    by (simp add: prod_eq_iff del: attemptStart.simps)
  have h4: "\<not> IsConflict (ApiError ''connection refused'')" by simp
  from C4_other_failures_end_the_loop[OF h1 h2 h3 h4]
  have first: "applyChangeset example_repo (changeset example_time ''abc123'') example_interrupted =
      ?fn (attemptStart 1 ?fn example_interrupted)"
    using h3 by simp
  have s1: "0 < Steps DefaultRetry" by (simp add: DefaultRetry_def)
  have s2: "\<forall>j<0. \<exists>e. fst (?fn (attemptStart j ?fn example_blocked)) = Some e \<and> IsConflict e"
    by simp
  have g: "fst (k8s_Get (Namespace example_repo) (Name example_repo) example_blocked)
     = Inr example_unwalkable"
    by (simp add: example_defs run_defs)
  have u: "\<not> walkable example_unwalkable"
    by (simp add: walkable_def example_unwalkable_def)
  have b0: "fst (?fn example_blocked) = Some (FieldError [''metadata'', ''annotations''])"
    by (simp add: example_defs run_defs)
  have b1: "calls (snd (?fn example_blocked)) = 1"
    "objects (snd (?fn example_blocked)) = [example_unwalkable]"
    by (simp_all add: example_defs run_defs)
  from b0 have s3: "?fn (attemptStart 0 ?fn example_blocked) =
      (Some (FieldError [''metadata'', ''annotations'']), snd (?fn example_blocked))"
    by (simp add: prod_eq_iff)
  have s4: "\<not> IsConflict (FieldError [''metadata'', ''annotations''])" by simp
  from C4_other_failures_end_the_loop[OF s1 s2 s3 s4]
  have second: "applyChangeset example_repo (changeset example_time ''abc123'') example_blocked =
      (Some (FieldError [''metadata'', ''annotations'']), snd (?fn example_blocked))"
    by blast
  from h1 a0 a1 c1 h4 first s1 g u s4 second b1 show ?thesis
    by (simp del: attemptStart.simps)
qed

lemma processRepo_resolved:
  assumes "getLatestCommit repo w = (Inr hash, w1)"
    and "time_Now (slog_Info ''Latest commit hash retrieved from repository''
           [(''repository'', LStr (Name repo)), (''hash'', LStr hash)] w1) = (now, w2)"
    and "applyChangeset repo (changeset now hash) w2 = (res, w3)"
  shows "processRepo repo w =
     wg_Done (case res of
                None \<Rightarrow> w3
              | Some retryErr \<Rightarrow>
                  slog_Warn ''failed to update GithubRepository''
                    [(''error'', LStr (errorString retryErr)),
                     (''namespace'', LStr (Namespace repo)),
                     (''name'', LStr (Name repo))] w3)"
  using assms by (cases res) (simp_all add: processRepo_def)

lemma wg_Done_log: "wg_Done w = Return w' \<Longrightarrow> log w' = log w"
  by (auto simp: wg_Done_def wg_Add_def split: if_splits)

text \<open>
  C5. In a run of \<open>processRepo\<close> the remote is cloned once and, when the resolution
  succeeds, the clock is read once, both before the first request to the store and
  whatever the number of attempts; and every update of the run submits the record read
  by the request just before it, with the one changeset built before the loop (the
  hash resolved and the time read) applied to it.
\<close>

theorem C5_changes_applied_to_fresh_read:
  assumes "processRepo repo w = Return w'"
  shows "\<exists>evs. log w' = log w @ evs \<and>
     (\<forall>url. count_list evs (EvClone url) = (if url = URL repo then 1 else 0)) \<and>
     count_list evs EvNow \<le> 1 \<and>
     (\<forall>hash w1. getLatestCommit repo w = (Inr hash, w1) \<longrightarrow>
        count_list evs EvNow = 1 \<and> fresh (changeset (wallclock w) hash) None evs \<and>
        (\<exists>loop. evs =
           [EvClone (URL repo),
            EvLog LevelInfo ''Latest commit hash retrieved from repository''
              [(''repository'', LStr (Name repo)), (''hash'', LStr hash)],
            EvNow] @ loop))"
proof -
  obtain r w1 where g: "getLatestCommit repo w = (r, w1)"
    by (cases "getLatestCommit repo w")
  then have w1: "w1 = w\<lparr>log := log w @ [EvClone (URL repo)]\<rparr>"
    by (rule getLatestCommit_world)
  show ?thesis
  proof (cases r)
    case (Inl e)
    with g assms have "w' = slog_Error ''Failed to get latest commit''
        [(''error'', LErr e), (''repository'', LStr (URL repo))] w1"
      by (simp add: processRepo_def)
    then have "log w' = log w @ [EvClone (URL repo), EvLog LevelError ''Failed to get latest commit''
        [(''error'', LErr e), (''repository'', LStr (URL repo))]]"
      by (simp add: w1 slog_Error_def emit_def)
    with g Inl show ?thesis by auto
  next
    case (Inr hash)
    let ?info = "EvLog LevelInfo ''Latest commit hash retrieved from repository''
        [(''repository'', LStr (Name repo)), (''hash'', LStr hash)]"
    let ?cs = "changeset (wallclock w) hash"
    obtain now w2 where n: "time_Now (slog_Info ''Latest commit hash retrieved from repository''
           [(''repository'', LStr (Name repo)), (''hash'', LStr hash)] w1) = (now, w2)"
      by (cases "time_Now (slog_Info ''Latest commit hash retrieved from repository''
           [(''repository'', LStr (Name repo)), (''hash'', LStr hash)] w1)")
    then have now: "now = wallclock w" and
      l2: "log w2 = log w @ [EvClone (URL repo), ?info, EvNow]"
      by (auto simp: w1 time_Now_def slog_Info_def emit_def)
    obtain res w3 where a: "applyChangeset repo ?cs w2 = (res, w3)"
      by (cases "applyChangeset repo ?cs w2")
    from applyChangeset_events[OF a] obtain mid where
      mid: "log w3 = log w2 @ mid" "\<forall>p. fresh ?cs p mid"
        "\<forall>url. EvClone url \<notin> set mid" "EvNow \<notin> set mid"
      by blast
    from g Inr n a have "processRepo repo w =
      wg_Done (case res of
                None \<Rightarrow> w3
              | Some retryErr \<Rightarrow>
                  slog_Warn ''failed to update GithubRepository''
                    [(''error'', LStr (errorString retryErr)),
                     (''namespace'', LStr (Namespace repo)),
                     (''name'', LStr (Name repo))] w3)"
      unfolding now by (intro processRepo_resolved) simp_all
    with assms have "\<exists>tail. log w' = log w3 @ tail \<and> (\<forall>p. fresh ?cs p tail) \<and>
        (\<forall>url. EvClone url \<notin> set tail) \<and> EvNow \<notin> set tail"
      by (cases res) (auto dest!: wg_Done_log simp: slog_Warn_def emit_def)
    then obtain tail where
      tail: "log w' = log w3 @ tail" "\<forall>p. fresh ?cs p tail"
        "\<forall>url. EvClone url \<notin> set tail" "EvNow \<notin> set tail"
      by blast
    let ?evs = "[EvClone (URL repo), ?info, EvNow] @ mid @ tail"
    have lg: "log w' = log w @ ?evs"
      using tail(1) mid(1) l2 by simp
    have clone: "count_list ?evs (EvClone url) = (if url = URL repo then 1 else 0)" for url
      using mid(3) tail(3) by simp
    have clock: "count_list ?evs EvNow = 1"
      using mid(4) tail(4) by simp
    have fr: "fresh ?cs None ?evs"
      using mid(2) tail(2) by (simp add: fresh_append)
    have same: "hash' = hash" if "getLatestCommit repo w = (Inr hash', w1')" for hash' w1'
      using that g Inr by simp
    have start: "\<exists>loop. ?evs = [EvClone (URL repo), ?info, EvNow] @ loop"
      by blast
    from lg clone clock fr same start show ?thesis
      by (intro exI[of _ ?evs]) auto
  qed
qed

theorem C5_changes_applied_to_fresh_read_witness:
  "\<exists>w'. processRepo example_repo example_contended_once = Return w' \<and>
         count_list (log w') EvSleep = 1 \<and>
         count_list (log w') (EvClone ''https://example/a.git'') = 1 \<and>
         count_list (log w') EvNow = 1 \<and>
         fresh (changeset example_time ''abc123'') None (log w')"
proof -
  let ?cs = "changeset example_time ''abc123''"
  let ?fn = "retryFn example_repo ?cs"
  let ?w1 = "example_contended_once\<lparr>log := [EvClone ''https://example/a.git'']\<rparr>"
  let ?w2 = "example_started\<lparr>env := example_rival_once\<rparr>"
  have h1: "getLatestCommit example_repo example_contended_once = (Inr ''abc123'', ?w1)"
    by (simp add: example_defs run_defs)
  have h2: "time_Now (slog_Info ''Latest commit hash retrieved from repository''
      [(''repository'', LStr (Name example_repo)), (''hash'', LStr ''abc123'')] ?w1)
     = (example_time, ?w2)"
    by (simp add: example_defs run_defs)
  have a0: "fst (?fn (attemptStart 0 ?fn ?w2)) = Some (Conflict ''repo-a'')"
    by (simp add: example_defs run_defs)
  then have before: "\<forall>j<1. \<exists>e. fst (?fn (attemptStart j ?fn ?w2)) = Some e \<and> IsConflict e"
    by (simp del: attemptStart.simps)
  have a1: "fst (?fn (attemptStart (Suc 0) ?fn ?w2)) = None"
    by (simp add: example_defs run_defs)
  have after: "wg (snd (?fn (attemptStart (Suc 0) ?fn ?w2))) = 1"
    "count_list (log (snd (?fn (attemptStart (Suc 0) ?fn ?w2)))) EvSleep = 1"
    by (simp_all add: example_defs run_defs)
  from a1 have ok: "?fn (attemptStart 1 ?fn ?w2) = (None, snd (?fn (attemptStart 1 ?fn ?w2)))"
    by (simp add: prod_eq_iff del: attemptStart.simps)
  have h3: "applyChangeset example_repo ?cs ?w2 = (None, snd (?fn (attemptStart 1 ?fn ?w2)))"
    by (rule applyChangeset_ends[OF _ before ok]) simp_all
  from processRepo_resolved[OF h1 h2 h3]
  have p: "processRepo example_repo example_contended_once =
      Return ((snd (?fn (attemptStart 1 ?fn ?w2)))\<lparr>wg := 0\<rparr>)"
    using after(1) by (simp add: wg_Done_def wg_Add_def del: attemptStart.simps)
  have e: "log example_contended_once = []" "URL example_repo = ''https://example/a.git''"
    "wallclock example_contended_once = example_time"
    by (simp_all add: example_defs)
  from C5_changes_applied_to_fresh_read[OF p] h1 after(2) p show ?thesis
    unfolding e by (auto simp del: attemptStart.simps)
qed

end
